theory Spec2Isabelle
  imports Complex_Main
begin

section \<open>Python and numpy values\<close>

text \<open>
  The model of \<^verbatim>\<open>anomdet/iforest.py\<close>. Floating-point numbers are idealised as
  reals (no rounding, no overflow) except where a property depends on the rounding: the
  product of which \<^verbatim>\<open>fit\<close> takes the ceiling, and the threshold of a split in the
  float64 construction \<open>grow64\<close>, are rounded to float64. The special values that numpy
  produces instead of raising (\<^verbatim>\<open>inf\<close>, \<^verbatim>\<open>-inf\<close>, \<^verbatim>\<open>nan\<close>) are kept, since
  \<^verbatim>\<open>np.log2\<close> and the division inside \<^verbatim>\<open>predict\<close> can produce them.

  A Python number is an \<^verbatim>\<open>int\<close> or a \<^verbatim>\<open>float\<close>; the difference matters
  for \<^verbatim>\<open>/\<close> and for slice bounds.
\<close>

datatype error = ValueError | IndexError | TypeError | AttributeError

datatype pynum = PyInt int | PyFloat real

fun num_val :: "pynum \<Rightarrow> real" where
  "num_val (PyInt k) = of_int k"
| "num_val (PyFloat x) = x"

datatype npfloat = Fin real | PInf | NInf | NaN

text \<open>
  Two facts about the interpreter and the library are not fixed by \<^verbatim>\<open>iforest.py\<close>
  itself and are parameters of the model:
  \<^item> \<open>true_division\<close>: whether \<^verbatim>\<open>/\<close> on two ints is true division (Python 3) or
    floor division (Python 2; the module has no \<^verbatim>\<open>from __future__ import division\<close>).
    The repository is Python 2 code: \<^verbatim>\<open>datasets/digits.py\<close> uses the statement
    \<^verbatim>\<open>print "Creating memmap file."\<close> and relies on \<^verbatim>\<open>sample_i / n_samples_per_row\<close>
    being an integer.
  \<^item> \<open>float_slice\<close>: whether numpy accepts a float as a slice bound, truncating it
    (numpy before 1.12), or raises TypeError (later versions).
\<close>

record pyenv =
  true_division :: bool
  float_slice :: bool

definition python2 :: pyenv where
  "python2 = \<lparr>true_division = False, float_slice = True\<rparr>"

definition python3 :: pyenv where
  "python3 = \<lparr>true_division = True, float_slice = False\<rparr>"

text \<open>\<^verbatim>\<open>np.log2\<close>, \<^verbatim>\<open>np.ceil\<close>, array division by a finite scalar and \<^verbatim>\<open>2 ** x\<close>.
  numpy warns and returns a special value where Python's own floats would raise.\<close>

definition np_log2 :: "real \<Rightarrow> npfloat" where
  "np_log2 x = (if 0 < x then Fin (log 2 x) else if x = 0 then NInf else NaN)"

fun np_ceil :: "npfloat \<Rightarrow> npfloat" where
  "np_ceil (Fin x) = Fin (of_int \<lceil>x\<rceil>)"
| "np_ceil PInf = PInf"
| "np_ceil NInf = NInf"
| "np_ceil NaN = NaN"

fun np_div :: "npfloat \<Rightarrow> real \<Rightarrow> npfloat" where
  "np_div (Fin x) d =
     (if d = 0 then (if x = 0 then NaN else if 0 < x then PInf else NInf) else Fin (x / d))"
| "np_div PInf d = (if d < 0 then NInf else PInf)"
| "np_div NInf d = (if d < 0 then PInf else NInf)"
| "np_div NaN d = NaN"

fun np_exp2 :: "npfloat \<Rightarrow> npfloat" where
  "np_exp2 (Fin x) = Fin (2 powr x)"
| "np_exp2 PInf = PInf"
| "np_exp2 NInf = Fin 0"
| "np_exp2 NaN = NaN"

text \<open>
  Rounding to float64. Where a claim depends on the value that float64 arithmetic
  gives, the result of an operation is the exact result rounded to the nearest float64,
  ties to the even significand: 53 significant bits, exponents from \<open>-1022\<close> (below
  which the spacing stays \<open>2 ^ -1074\<close>), and \<^verbatim>\<open>inf\<close> from \<open>2 ^ 1024\<close> on.
  \<open>round64\<close> is the rounding without the overflow, \<open>fl64\<close> the rounding with it.
\<close>

definition pow2 :: "int \<Rightarrow> real" where
  "pow2 e = (if 0 \<le> e then 2 ^ nat e else 1 / 2 ^ nat (- e))"

definition rne :: "real \<Rightarrow> int" where
  "rne x =
     (let f = \<lfloor>x\<rfloor>; r = x - of_int f in
      if r < 1 / 2 then f else if 1 / 2 < r then f + 1 else if even f then f else f + 1)"

definition round64 :: "real \<Rightarrow> real" where
  "round64 x =
     (if x = 0 then 0
      else (let e = max \<lfloor>log 2 \<bar>x\<bar>\<rfloor> (- 1022) - 52 in of_int (rne (x / pow2 e)) * pow2 e))"

definition fl64 :: "real \<Rightarrow> npfloat" where
  "fl64 x =
     (let r = round64 x in
      if 2 ^ 1024 \<le> \<bar>r\<bar> then (if 0 < x then PInf else NInf) else Fin r)"

text \<open>A slice \<^verbatim>\<open>xs[:k]\<close>: a negative bound counts from the end.\<close>

definition slice_to :: "int \<Rightarrow> 'a list \<Rightarrow> 'a list" where
  "slice_to k xs = (if 0 \<le> k then take (nat k) xs else take (length xs - nat (- k)) xs)"

definition py_int :: "real \<Rightarrow> int" where
  "py_int x = (if 0 \<le> x then \<lfloor>x\<rfloor> else \<lceil>x\<rceil>)"

fun slice_to_num :: "pyenv \<Rightarrow> pynum \<Rightarrow> 'a list \<Rightarrow> error + 'a list" where
  "slice_to_num E (PyInt k) xs = Inr (slice_to k xs)"
| "slice_to_num E (PyFloat x) xs =
     (if float_slice E then Inr (slice_to (py_int x) xs) else Inl TypeError)"

section \<open>The expected-path-length estimator\<close>

text \<open>
  \<^verbatim>\<open>
  def _adjustment(n):
          if n<=1:
              value = 0
          elif n == 2:
              value = 1
          else:
              value = 2 * (np.log(n-1)+0.5772156649) - 2*(n-1) / n;
          return value
  \<close>
  \<^verbatim>\<open>2*(n-1) / n\<close> parses as \<^verbatim>\<open>(2*(n-1)) / n\<close>. For an int \<open>n\<close> both operands are
  ints, so the quotient is floored unless division is true division.
\<close>

definition euler_gamma :: real where
  "euler_gamma = 5772156649 / 10000000000"

fun adjustment :: "pyenv \<Rightarrow> pynum \<Rightarrow> real" where
  "adjustment E (PyInt n) =
     (if n \<le> 1 then 0
      else if n = 2 then 1
      else 2 * (ln (of_int (n - 1)) + euler_gamma)
           - (if true_division E then of_int (2 * (n - 1)) / of_int n
              else of_int ((2 * (n - 1)) div n)))"
| "adjustment E (PyFloat x) =
     (if x \<le> 1 then 0
      else if x = 2 then 1
      else 2 * (ln (x - 1) + euler_gamma) - 2 * (x - 1) / x)"

text \<open>The reference definition of \<open>c(n)\<close>, as the specification words it.\<close>

definition c_ref :: "nat \<Rightarrow> real" where
  "c_ref n =
     (if n \<le> 1 then 0
      else if n = 2 then 1
      else 2 * (ln (real n - 1) + euler_gamma) - 2 * (real n - 1) / real n)"

section \<open>Isolation trees\<close>

datatype ITreeNode = ITreeLeaf nat | ITreeNode nat real ITreeNode ITreeNode

text \<open>A two-dimensional array: its rows, and the column count, which \<^verbatim>\<open>X.shape\<close>
  reports also when there is no row.\<close>

record ndarray =
  rows :: "real list list"
  ncols :: nat

definition column :: "ndarray \<Rightarrow> nat \<Rightarrow> real list" where
  "column X j = map (\<lambda>r. r ! j) (rows X)"

definition select_rows :: "(real list \<Rightarrow> bool) \<Rightarrow> ndarray \<Rightarrow> ndarray" where
  "select_rows p X = X\<lparr>rows := filter p (rows X)\<rparr>"

definition take_rows :: "ndarray \<Rightarrow> nat list \<Rightarrow> error + ndarray" where
  "take_rows X idx =
     (if list_all (\<lambda>i. i < length (rows X)) idx
      then Inr (X\<lparr>rows := map (\<lambda>i. rows X ! i) idx\<rparr>)
      else Inl IndexError)"

definition py_min :: "real list \<Rightarrow> real" where
  "py_min xs = foldl min (hd xs) (tl xs)"

definition py_max :: "real list \<Rightarrow> real" where
  "py_max xs = foldl max (hd xs) (tl xs)"

text \<open>
  numpy's \<^verbatim>\<open>RandomState\<close> is not part of the repository. Its three operations used
  here are parameters: each takes the generator's state and returns the draw and the
  next state.
\<close>

record 's RandomState =
  randint :: "nat \<Rightarrow> 's \<Rightarrow> nat \<times> 's"
  random_sample :: "'s \<Rightarrow> real \<times> 's"
  permutation :: "nat \<Rightarrow> 's \<Rightarrow> nat list \<times> 's"

text \<open>\<^verbatim>\<open>current_height >= height_limit\<close>, where the limit is an int or the float
  \<^verbatim>\<open>np.ceil(np.log2(psi))\<close>; a comparison with \<^verbatim>\<open>nan\<close> is false.\<close>

fun height_reached :: "nat \<Rightarrow> npfloat \<Rightarrow> bool" where
  "height_reached d (Fin r) = (r \<le> real d)"
| "height_reached d PInf = False"
| "height_reached d NInf = True"
| "height_reached d NaN = False"

text \<open>
  \<^verbatim>\<open>
  def _grow(self, X, current_height, height_limit):
      m, n = X.shape
      if current_height >= height_limit or m <= 1:
          tree = ITreeLeaf(m)
      else:
          split_att = self.random_state.randint(n)
          a = min(X[:, split_att])
          b = max(X[:, split_att])
          split_value = a + (b-a)*self.random_state.random_sample()
          X_left = X[X[:, split_att] < split_value]
          X_right = X[X[:, split_att] >= split_value]
          tree = ITreeNode(split_att, split_value)
          tree.insert_left(self._grow(X_left, current_height + 1, height_limit))
          tree.insert_right(self._grow(X_right, current_height + 1, height_limit))
      return tree
  \<close>
  \<^verbatim>\<open>randint(0)\<close> raises ValueError; a column index outside the array raises IndexError.
  With a limit that is never reached the recursion need not end: the result \<open>None\<close>
  stands for a call that does not return.
\<close>

partial_function (option) grow ::
  "'s RandomState \<Rightarrow> ndarray \<Rightarrow> nat \<Rightarrow> npfloat \<Rightarrow> 's \<Rightarrow> (error + ITreeNode \<times> 's) option"
where
  "grow G X current_height height_limit s =
    (let m = length (rows X); n = ncols X in
     if height_reached current_height height_limit \<or> m \<le> 1
     then Some (Inr (ITreeLeaf m, s))
     else if n = 0 then Some (Inl ValueError)
     else (case randint G n s of (split_att, s1) \<Rightarrow>
       if n \<le> split_att then Some (Inl IndexError)
       else (let a = py_min (column X split_att);
                 b = py_max (column X split_att) in
         case random_sample G s1 of (u, s2) \<Rightarrow>
           (let split_value = a + (b - a) * u;
                X_left = select_rows (\<lambda>r. r ! split_att < split_value) X;
                X_right = select_rows (\<lambda>r. r ! split_att \<ge> split_value) X in
            Option.bind (grow G X_left (current_height + 1) height_limit s2)
             (\<lambda>res_left. case res_left of
                Inl e \<Rightarrow> Some (Inl e)
              | Inr (l, s3) \<Rightarrow>
                  Option.bind (grow G X_right (current_height + 1) height_limit s3)
                   (\<lambda>res_right. case res_right of
                      Inl e \<Rightarrow> Some (Inl e)
                    | Inr (r, s4) \<Rightarrow>
                        Some (Inr (ITreeNode split_att split_value l r, s4))))))))"

declare grow.simps [code]

record ITree =
  tree_height_limit :: npfloat
  root :: "ITreeNode option"

definition ITree_fit ::
  "'s RandomState \<Rightarrow> ITree \<Rightarrow> ndarray \<Rightarrow> 's \<Rightarrow> (error + ITree \<times> 's) option" where
  "ITree_fit G T X s =
     Option.bind (grow G X 0 (tree_height_limit T) s)
       (\<lambda>res. case res of
          Inl e \<Rightarrow> Some (Inl e)
        | Inr (nd, s') \<Rightarrow> Some (Inr (T\<lparr>root := Some nd\<rparr>, s')))"

text \<open>
  \<^verbatim>\<open>
  def path_length_and_leaf_size(self, x):
      treenode = self.root
      path_length = 0
      while not isinstance(treenode, ITreeLeaf):
          if treenode.compare(x):        # x[split_attribute] >= split_value
              treenode = treenode.get_right()
          else:
              treenode = treenode.get_left()
          path_length += 1
      return (path_length, treenode.size)
  \<close>
\<close>

fun path_loop :: "ITreeNode \<Rightarrow> real list \<Rightarrow> nat \<Rightarrow> error + nat \<times> nat" where
  "path_loop (ITreeLeaf sz) x path_length = Inr (path_length, sz)"
| "path_loop (ITreeNode split_attribute split_value left right) x path_length =
     (if length x \<le> split_attribute then Inl IndexError
      else if x ! split_attribute \<ge> split_value then path_loop right x (path_length + 1)
      else path_loop left x (path_length + 1))"

definition path_length_and_leaf_size :: "ITree \<Rightarrow> real list \<Rightarrow> error + nat \<times> nat" where
  "path_length_and_leaf_size T x =
     (case root T of None \<Rightarrow> Inl AttributeError | Some nd \<Rightarrow> path_loop nd x 0)"

section \<open>Tree construction in float64 arithmetic\<close>

text \<open>
  The construction \<open>grow\<close> above computes the threshold in exact arithmetic. Where the
  value of the threshold is the point (which values it takes, and which rows it sends to
  which side), line 141, \<^verbatim>\<open>split_value = a + (b-a)*self.random_state.random_sample()\<close>,
  is evaluated as the code evaluates it: three float64 operations, each rounding its
  exact result, with \<^verbatim>\<open>inf\<close> where \<open>b - a\<close> overflows and \<^verbatim>\<open>nan\<close> for \<^verbatim>\<open>inf * 0\<close>. The
  entries of the array are finite float64 values.
\<close>

fun f64_mul :: "npfloat \<Rightarrow> real \<Rightarrow> npfloat" where
  "f64_mul (Fin w) u = fl64 (w * u)"
| "f64_mul PInf u = (if u = 0 then NaN else if 0 < u then PInf else NInf)"
| "f64_mul NInf u = (if u = 0 then NaN else if 0 < u then NInf else PInf)"
| "f64_mul NaN u = NaN"

fun f64_add :: "real \<Rightarrow> npfloat \<Rightarrow> npfloat" where
  "f64_add a (Fin w) = fl64 (a + w)"
| "f64_add a PInf = PInf"
| "f64_add a NInf = NInf"
| "f64_add a NaN = NaN"

definition split_value64 :: "real \<Rightarrow> real \<Rightarrow> real \<Rightarrow> npfloat" where
  "split_value64 a b u = f64_add a (f64_mul (fl64 (b - a)) u)"

text \<open>\<^verbatim>\<open>x < split_value\<close> and \<^verbatim>\<open>x >= split_value\<close> for a finite \<open>x\<close>; both are false
  of \<^verbatim>\<open>nan\<close>.\<close>

fun f64_less :: "real \<Rightarrow> npfloat \<Rightarrow> bool" where
  "f64_less x (Fin v) = (x < v)"
| "f64_less x PInf = True"
| "f64_less x NInf = False"
| "f64_less x NaN = False"

fun f64_ge :: "real \<Rightarrow> npfloat \<Rightarrow> bool" where
  "f64_ge x (Fin v) = (v \<le> x)"
| "f64_ge x PInf = False"
| "f64_ge x NInf = True"
| "f64_ge x NaN = False"

datatype ITreeNode64 = ITreeLeaf64 nat | ITreeNode64 nat npfloat ITreeNode64 ITreeNode64

text \<open>\<^verbatim>\<open>_grow\<close> as above, with the threshold and the two comparisons in float64.\<close>

partial_function (option) grow64 ::
  "'s RandomState \<Rightarrow> ndarray \<Rightarrow> nat \<Rightarrow> npfloat \<Rightarrow> 's \<Rightarrow> (error + ITreeNode64 \<times> 's) option"
where
  "grow64 G X current_height height_limit s =
    (let m = length (rows X); n = ncols X in
     if height_reached current_height height_limit \<or> m \<le> 1
     then Some (Inr (ITreeLeaf64 m, s))
     else if n = 0 then Some (Inl ValueError)
     else (case randint G n s of (split_att, s1) \<Rightarrow>
       if n \<le> split_att then Some (Inl IndexError)
       else (let a = py_min (column X split_att);
                 b = py_max (column X split_att) in
         case random_sample G s1 of (u, s2) \<Rightarrow>
           (let split_value = split_value64 a b u;
                X_left = select_rows (\<lambda>r. f64_less (r ! split_att) split_value) X;
                X_right = select_rows (\<lambda>r. f64_ge (r ! split_att) split_value) X in
            Option.bind (grow64 G X_left (current_height + 1) height_limit s2)
             (\<lambda>res_left. case res_left of
                Inl e \<Rightarrow> Some (Inl e)
              | Inr (l, s3) \<Rightarrow>
                  Option.bind (grow64 G X_right (current_height + 1) height_limit s3)
                   (\<lambda>res_right. case res_right of
                      Inl e \<Rightarrow> Some (Inl e)
                    | Inr (r, s4) \<Rightarrow>
                        Some (Inr (ITreeNode64 split_att split_value l r, s4))))))))"

text \<open>
  The construction as the claim words it, for a tree with float64 thresholds: a leaf
  holding the row count when the depth has reached the limit or at most one row is
  left; otherwise some feature among the \<open>n\<close> columns, its minimum \<open>a\<close> and maximum \<open>b\<close>
  over the rows, a threshold in \<open>[a, b)\<close> (which is \<open>a\<close> itself when \<open>a = b\<close>), and the two
  parts built at the next depth.
\<close>

inductive grow_spec :: "ndarray \<Rightarrow> nat \<Rightarrow> npfloat \<Rightarrow> ITreeNode64 \<Rightarrow> bool" where
  spec_leaf:
    "height_reached depth limit \<or> length (rows X) \<le> 1 \<Longrightarrow>
     grow_spec X depth limit (ITreeLeaf64 (length (rows X)))"
| spec_internal:
    "\<not> (height_reached depth limit \<or> length (rows X) \<le> 1) \<Longrightarrow>
     feature < ncols X \<Longrightarrow>
     a = Min (set (column X feature)) \<Longrightarrow>
     b = Max (set (column X feature)) \<Longrightarrow>
     a \<le> threshold \<Longrightarrow> threshold < b \<or> (a = b \<and> threshold = a) \<Longrightarrow>
     grow_spec (select_rows (\<lambda>row. row ! feature < threshold) X) (depth + 1) limit l \<Longrightarrow>
     grow_spec (select_rows (\<lambda>row. threshold \<le> row ! feature) X) (depth + 1) limit r \<Longrightarrow>
     grow_spec X depth limit (ITreeNode64 feature (Fin threshold) l r)"

text \<open>
  The construction as amended: the same recursion, with the feature the generator's
  \<^verbatim>\<open>randint(n)\<close>, the threshold the float64 value of \<open>a + (b - a) * u\<close> for the generator's
  \<^verbatim>\<open>random_sample()\<close> \<open>u\<close>, and the generator passed on from the draws to the left part and
  from the left part to the right part. The last two arguments are the generator's state
  before and after.
\<close>

inductive grow_draws ::
  "'s RandomState \<Rightarrow> ndarray \<Rightarrow> nat \<Rightarrow> npfloat \<Rightarrow> ITreeNode64 \<Rightarrow> 's \<Rightarrow> 's \<Rightarrow> bool"
  for G :: "'s RandomState" where
  draws_leaf:
    "height_reached depth limit \<or> length (rows X) \<le> 1 \<Longrightarrow>
     grow_draws G X depth limit (ITreeLeaf64 (length (rows X))) s s"
| draws_internal:
    "\<not> (height_reached depth limit \<or> length (rows X) \<le> 1) \<Longrightarrow>
     randint G (ncols X) s = (feature, s1) \<Longrightarrow>
     feature < ncols X \<Longrightarrow>
     a = Min (set (column X feature)) \<Longrightarrow>
     b = Max (set (column X feature)) \<Longrightarrow>
     random_sample G s1 = (u, s2) \<Longrightarrow>
     threshold = split_value64 a b u \<Longrightarrow>
     grow_draws G (select_rows (\<lambda>row. f64_less (row ! feature) threshold) X) (depth + 1) limit l s2 s3 \<Longrightarrow>
     grow_draws G (select_rows (\<lambda>row. f64_ge (row ! feature) threshold) X) (depth + 1) limit r s3 s4 \<Longrightarrow>
     grow_draws G X depth limit (ITreeNode64 feature threshold l r) s s4"

section \<open>The forest\<close>

text \<open>The attribute \<^verbatim>\<open>psi\<close> does not exist before the first \<^verbatim>\<open>fit\<close>.
  \<^verbatim>\<open>random_state\<close> is resolved by \<^verbatim>\<open>maybe_default_random_state\<close>, which is
  outside the sources: the generator it returns is the state passed to \<open>fit\<close>.\<close>

record IForest =
  num_trees :: int
  subsample_size :: pynum
  trees :: "ITree list"
  height_limit :: "npfloat option"
  psi :: "pynum option"

definition IForest_init :: "int \<Rightarrow> pynum \<Rightarrow> npfloat option \<Rightarrow> IForest" where
  "IForest_init nt ss hl =
     \<lparr>num_trees = nt, subsample_size = ss, trees = [], height_limit = hl, psi = None\<rparr>"

text \<open>
  \<^verbatim>\<open>
  m = X.shape[0]
  if self.subsample_size <= 1.0:
      psi = int(np.ceil(self.subsample_size * m))
  else:
      psi = self.subsample_size
  if self.height_limit is None:
      self.height_limit = np.ceil(np.log2(psi))
  \<close>
\<close>

text \<open>The product \<^verbatim>\<open>self.subsample_size * m\<close> is a float64 product (or an int that
  \<^verbatim>\<open>np.ceil\<close> converts to float64): the exact product, rounded. A \<open>PyFloat\<close> carries the
  exact value of its float64: the literal \<^verbatim>\<open>0.1\<close> is
  \<open>PyFloat (3602879701896397 / 36028797018963968)\<close>. A product beyond the float64 range,
  on which \<^verbatim>\<open>int\<close> raises OverflowError, is not modelled.\<close>

definition fit_psi :: "IForest \<Rightarrow> ndarray \<Rightarrow> pynum" where
  "fit_psi F X =
     (let m = length (rows X) in
      if num_val (subsample_size F) \<le> 1
      then PyInt \<lceil>round64 (num_val (subsample_size F) * real m)\<rceil>
      else subsample_size F)"

definition fit_height_limit :: "IForest \<Rightarrow> pynum \<Rightarrow> npfloat" where
  "fit_height_limit F p =
     (case height_limit F of None \<Rightarrow> np_ceil (np_log2 (num_val p)) | Some h \<Rightarrow> h)"

text \<open>
  \<^verbatim>\<open>
  for i in range(self.num_trees):
      sample_ind = random_state.permutation(numdata)[:psi]
      X_sample = X[sample_ind, :]
      trees.append(ITree(height_limit=self.height_limit, random_state=random_state).fit(X_sample))
  \<close>
  The first argument of \<open>fit_loop\<close> counts the iterations left.
\<close>

fun fit_loop ::
  "nat \<Rightarrow> pyenv \<Rightarrow> 's RandomState \<Rightarrow> npfloat \<Rightarrow> pynum \<Rightarrow> ndarray \<Rightarrow> ITree list \<Rightarrow> 's
     \<Rightarrow> (error + ITree list \<times> 's) option" where
  "fit_loop 0 E G h p X ts s = Some (Inr (ts, s))"
| "fit_loop (Suc k) E G h p X ts s =
     (case permutation G (length (rows X)) s of (perm, s1) \<Rightarrow>
        (case slice_to_num E p perm of
           Inl e \<Rightarrow> Some (Inl e)
         | Inr sample_ind \<Rightarrow>
            (case take_rows X sample_ind of
               Inl e \<Rightarrow> Some (Inl e)
             | Inr X_sample \<Rightarrow>
                Option.bind (ITree_fit G \<lparr>tree_height_limit = h, root = None\<rparr> X_sample s1)
                  (\<lambda>res. case res of
                     Inl e \<Rightarrow> Some (Inl e)
                   | Inr (T, s2) \<Rightarrow> fit_loop k E G h p X (ts @ [T]) s2))))"

text \<open>\<open>fit\<close> returns the forest object as the call leaves it, with the exception
  raised or, when it returns, the generator's state. \<^verbatim>\<open>self.height_limit\<close> is
  assigned before the loop, so it is set also when the loop raises.\<close>

definition fit ::
  "pyenv \<Rightarrow> 's RandomState \<Rightarrow> IForest \<Rightarrow> ndarray \<Rightarrow> 's \<Rightarrow> (IForest \<times> (error + 's)) option" where
  "fit E G F X s =
     (let p = fit_psi F X;
          h = fit_height_limit F p;
          F1 = F\<lparr>height_limit := Some h\<rparr> in
      case fit_loop (nat (num_trees F)) E G h p X [] s of
        None \<Rightarrow> None
      | Some (Inl e) \<Rightarrow> Some (F1, Inl e)
      | Some (Inr (ts, s')) \<Rightarrow> Some (F1\<lparr>trees := ts, psi := Some p\<rparr>, Inr s'))"

text \<open>
  The first line of \<^verbatim>\<open>fit\<close>,
  \<^verbatim>\<open>random_state = maybe_default_random_state(self.random_state)\<close>, calls a function of
  \<^verbatim>\<open>anomdet/utils.py\<close>, which is not among the sources. The attribute is an int, a
  \<^verbatim>\<open>RandomState\<close> instance or \<^verbatim>\<open>None\<close>.
\<close>

datatype 's random_state_arg = RS_None | RS_Int int | RS_Instance 's

text \<open>
  Modelled from the spec: \<^verbatim>\<open>maybe_default_random_state\<close>, absent from the sources. The
  specification has "explicit seed/generator, or unset to use a process-wide default
  generator", and the docstring of \<^verbatim>\<open>IForest\<close>: "If int, random_state is the seed used
  by the random number generator; If RandomState instance, random_state is the random
  number generator; If None, the random number generator is the RandomState instance
  used by np.random". \<open>new_RandomState\<close> stands for the constructor
  \<^verbatim>\<open>np.random.RandomState(seed)\<close>, \<open>global_rs\<close> for the state of the generator of
  \<^verbatim>\<open>np.random\<close> when \<^verbatim>\<open>fit\<close> is called.
\<close>

definition maybe_default_random_state ::
  "(int \<Rightarrow> 's) \<Rightarrow> 's \<Rightarrow> 's random_state_arg \<Rightarrow> 's" where
  "maybe_default_random_state new_RandomState global_rs random_state =
     (case random_state of
        RS_None \<Rightarrow> global_rs
      | RS_Int seed \<Rightarrow> new_RandomState seed
      | RS_Instance rs \<Rightarrow> rs)"

text \<open>A call of \<^verbatim>\<open>fit\<close> on a forest whose attribute \<^verbatim>\<open>random_state\<close> is
  \<open>random_state\<close>, in a process whose global generator is in the state \<open>global_rs\<close>.\<close>

definition fit_call ::
  "pyenv \<Rightarrow> 's RandomState \<Rightarrow> (int \<Rightarrow> 's) \<Rightarrow> 's \<Rightarrow> 's random_state_arg \<Rightarrow> IForest \<Rightarrow> ndarray
     \<Rightarrow> (IForest \<times> (error + 's)) option" where
  "fit_call E G new_RandomState global_rs random_state F X =
     fit E G F X (maybe_default_random_state new_RandomState global_rs random_state)"

text \<open>
  \<^verbatim>\<open>
  def predict(self, X):
      m = X.shape[0]
      scores = np.zeros(m)
      for i in range(m):
          x = X[i, :]
          for tree in self.trees:
              path_length, leaf_size = tree.path_length_and_leaf_size(x)
              scores[i] += path_length + _adjustment(leaf_size)
      scores = 2**(-scores / len(self.trees) / _adjustment(self.psi))
      return scores
  \<close>
\<close>

fun score_row :: "pyenv \<Rightarrow> ITree list \<Rightarrow> real list \<Rightarrow> real \<Rightarrow> error + real" where
  "score_row E [] x acc = Inr acc"
| "score_row E (tree # ts) x acc =
     (case path_length_and_leaf_size tree x of
        Inl e \<Rightarrow> Inl e
      | Inr (path_length, leaf_size) \<Rightarrow>
          score_row E ts x (acc + (real path_length + adjustment E (PyInt (int leaf_size)))))"

fun score_rows :: "pyenv \<Rightarrow> ITree list \<Rightarrow> real list list \<Rightarrow> error + real list" where
  "score_rows E ts [] = Inr []"
| "score_rows E ts (x # xs) =
     (case score_row E ts x 0 of
        Inl e \<Rightarrow> Inl e
      | Inr sc \<Rightarrow> (case score_rows E ts xs of Inl e \<Rightarrow> Inl e | Inr scs \<Rightarrow> Inr (sc # scs)))"

definition to_score :: "pyenv \<Rightarrow> nat \<Rightarrow> pynum \<Rightarrow> real \<Rightarrow> npfloat" where
  "to_score E len p sc = np_exp2 (np_div (np_div (Fin (- sc)) (real len)) (adjustment E p))"

definition predict :: "pyenv \<Rightarrow> IForest \<Rightarrow> ndarray \<Rightarrow> error + npfloat list" where
  "predict E F X =
     (case score_rows E (trees F) (rows X) of
        Inl e \<Rightarrow> Inl e
      | Inr scores \<Rightarrow>
         (case psi F of
            None \<Rightarrow> Inl AttributeError
          | Some p \<Rightarrow> Inr (map (to_score E (length (trees F)) p) scores)))"

section \<open>Notions the claims are stated with\<close>

text \<open>The depth of the deepest leaf: the number of internal nodes on the longest path
  from the root.\<close>

fun tree_depth :: "ITreeNode \<Rightarrow> nat" where
  "tree_depth (ITreeLeaf k) = 0"
| "tree_depth (ITreeNode att v l r) = Suc (max (tree_depth l) (tree_depth r))"

fun features_below :: "nat \<Rightarrow> ITreeNode \<Rightarrow> bool" where
  "features_below n (ITreeLeaf k) = True"
| "features_below n (ITreeNode att v l r) =
     (att < n \<and> features_below n l \<and> features_below n r)"

fun leaf_total :: "ITreeNode \<Rightarrow> nat" where
  "leaf_total (ITreeLeaf k) = k"
| "leaf_total (ITreeNode att v l r) = leaf_total l + leaf_total r"

text \<open>
  Row conservation, read off a built tree: the rows that reach a node are split by the
  node's own test, as during construction; at every internal node the two parts must
  have as many rows together as reached the node, and every leaf must record the number
  of rows that reached it.
\<close>

fun conserves :: "ITreeNode \<Rightarrow> ndarray \<Rightarrow> bool" where
  "conserves (ITreeLeaf k) X = (k = length (rows X))"
| "conserves (ITreeNode att v l r) X =
     (let X_left = select_rows (\<lambda>row. row ! att < v) X;
          X_right = select_rows (\<lambda>row. v \<le> row ! att) X in
      length (rows X_left) + length (rows X_right) = length (rows X)
      \<and> conserves l X_left \<and> conserves r X_right)"

text \<open>The same notions for a tree built in float64 arithmetic, whose node test is the
  float64 comparison with the stored threshold, and the trees none of whose thresholds is
  \<^verbatim>\<open>nan\<close>.\<close>

fun leaf_total64 :: "ITreeNode64 \<Rightarrow> nat" where
  "leaf_total64 (ITreeLeaf64 k) = k"
| "leaf_total64 (ITreeNode64 att v l r) = leaf_total64 l + leaf_total64 r"

fun conserves64 :: "ITreeNode64 \<Rightarrow> ndarray \<Rightarrow> bool" where
  "conserves64 (ITreeLeaf64 k) X = (k = length (rows X))"
| "conserves64 (ITreeNode64 att v l r) X =
     (let X_left = select_rows (\<lambda>row. f64_less (row ! att) v) X;
          X_right = select_rows (\<lambda>row. f64_ge (row ! att) v) X in
      length (rows X_left) + length (rows X_right) = length (rows X)
      \<and> conserves64 l X_left \<and> conserves64 r X_right)"

text \<open>Row conservation at every node whose threshold is not \<^verbatim>\<open>nan\<close>; a node whose
  threshold is \<^verbatim>\<open>nan\<close> sends no row to either side.\<close>

fun conserves_unless_nan :: "ITreeNode64 \<Rightarrow> ndarray \<Rightarrow> bool" where
  "conserves_unless_nan (ITreeLeaf64 k) X = (k = length (rows X))"
| "conserves_unless_nan (ITreeNode64 att v l r) X =
     (let X_left = select_rows (\<lambda>row. f64_less (row ! att) v) X;
          X_right = select_rows (\<lambda>row. f64_ge (row ! att) v) X in
      (if v = NaN then rows X_left = [] \<and> rows X_right = []
       else length (rows X_left) + length (rows X_right) = length (rows X))
      \<and> conserves_unless_nan l X_left \<and> conserves_unless_nan r X_right)"

text \<open>An array all of whose entries are below \<open>B\<close> in magnitude.\<close>

definition entries_below :: "real \<Rightarrow> ndarray \<Rightarrow> bool" where
  "entries_below B X = (\<forall>r \<in> set (rows X). \<forall>j < ncols X. \<bar>r ! j\<bar> < B)"

fun nan_free :: "ITreeNode64 \<Rightarrow> bool" where
  "nan_free (ITreeLeaf64 k) = True"
| "nan_free (ITreeNode64 att v l r) = (v \<noteq> NaN \<and> nan_free l \<and> nan_free r)"

text \<open>What numpy documents of the generator: \<^verbatim>\<open>randint(n)\<close> is below \<open>n\<close>,
  \<^verbatim>\<open>random_sample()\<close> is in \<open>[0, 1)\<close>.\<close>

definition randint_ok :: "'s RandomState \<Rightarrow> bool" where
  "randint_ok G = (\<forall>n s. 0 < n \<longrightarrow> fst (randint G n s) < n)"

definition sample_ok :: "'s RandomState \<Rightarrow> bool" where
  "sample_ok G = (\<forall>s. 0 \<le> fst (random_sample G s) \<and> fst (random_sample G s) < 1)"

text \<open>A tree that has been fitted on an array of \<open>n\<close> columns: it has a root, and
  every feature index in it is below \<open>n\<close>.\<close>

definition tree_ok :: "nat \<Rightarrow> ITree \<Rightarrow> bool" where
  "tree_ok n T = (case root T of None \<Rightarrow> False | Some nd \<Rightarrow> features_below n nd)"

text \<open>The closed form of what \<open>predict\<close> computes: the term that the inner loop adds
  to \<^verbatim>\<open>scores[i]\<close> for one tree, and the score made of the sum of these terms, with
  \<^verbatim>\<open>_adjustment\<close> as the code computes it.\<close>

definition tree_term :: "pyenv \<Rightarrow> ITree \<Rightarrow> real list \<Rightarrow> real" where
  "tree_term E T x =
     (case path_length_and_leaf_size T x of
        Inl e \<Rightarrow> 0
      | Inr (path_length, leaf_size) \<Rightarrow> real path_length + adjustment E (PyInt (int leaf_size)))"

definition code_score :: "pyenv \<Rightarrow> IForest \<Rightarrow> pynum \<Rightarrow> real list \<Rightarrow> real" where
  "code_score E F p x =
     2 powr (- ((\<Sum>T\<leftarrow>trees F. tree_term E T x) / of_int (num_trees F)) / adjustment E p)"

text \<open>The score as the specification words it: \<open>path_length + c(leaf_size)\<close> of one
  tree, summed over the trees, divided by \<open>num_trees\<close> and by \<open>c(psi)\<close>, and two to the
  power of the negated quotient, with \<open>c\<close> the reference definition \<open>c_ref\<close>.\<close>

definition ref_term :: "ITree \<Rightarrow> real list \<Rightarrow> real" where
  "ref_term T x =
     (case path_length_and_leaf_size T x of
        Inl e \<Rightarrow> 0
      | Inr (path_length, leaf_size) \<Rightarrow> real path_length + c_ref leaf_size)"

definition ref_score :: "IForest \<Rightarrow> nat \<Rightarrow> real list \<Rightarrow> real" where
  "ref_score F k x =
     2 powr (- ((\<Sum>T\<leftarrow>trees F. ref_term T x) / of_int (num_trees F)) / c_ref k)"

text \<open>The forests that zero or more further calls of \<open>fit\<close> (on any data, from any
  generator state, returning or raising) make of a forest.\<close>

inductive later_fit :: "pyenv \<Rightarrow> 's RandomState \<Rightarrow> IForest \<Rightarrow> IForest \<Rightarrow> bool"
  for E :: pyenv and G :: "'s RandomState" where
  later_same: "later_fit E G F F"
| later_step: "later_fit E G F F' \<Longrightarrow> fit E G F' X s = Some (F'', out) \<Longrightarrow> later_fit E G F F''"

section \<open>A concrete generator and concrete data\<close>

text \<open>A generator whose state is a counter, and a small array whose second column is
  constant; the theorems below are instantiated with them.\<close>

definition counter_rng :: "nat RandomState" where
  "counter_rng =
     \<lparr>randint = (\<lambda>n s. (s mod n, Suc s)),
      random_sample = (\<lambda>s. (1 / 2, Suc s)),
      permutation = (\<lambda>m s. (rev [0..<m], Suc s))\<rparr>"

definition demo_X :: ndarray where
  "demo_X = \<lparr>rows = [[1, 5], [2, 5], [4, 5], [8, 5]], ncols = 2\<rparr>"

definition demo_root :: ITreeNode where
  "demo_root =
     ITreeNode 0 (9 / 2)
       (ITreeNode 0 (5 / 2)
         (ITreeNode 0 (3 / 2) (ITreeLeaf 1) (ITreeLeaf 1)) (ITreeLeaf 1))
       (ITreeLeaf 1)"

definition demo_tree :: ITree where
  "demo_tree = \<lparr>tree_height_limit = Fin 3, root = Some demo_root\<rparr>"

definition demo_constant_root :: ITreeNode where
  "demo_constant_root = ITreeNode 1 5 (ITreeLeaf 0) (ITreeNode 1 5 (ITreeLeaf 0) (ITreeLeaf 4))"

definition demo_X2 :: ndarray where
  "demo_X2 = \<lparr>rows = [[1, 5], [2, 5]], ncols = 2\<rparr>"

text \<open>A forest of two trees that takes all the rows (the fraction 1.0) and derives its
  height limit; the forest after \<open>fit\<close> on \<open>demo_X\<close> from generator state 0; and the
  forest after a second \<open>fit\<close>, on the two rows of \<open>demo_X2\<close>.\<close>

definition demo_forest_init :: IForest where
  "demo_forest_init = IForest_init 2 (PyFloat 1) None"

definition demo_trees :: "ITree list" where
  "demo_trees =
     [\<lparr>tree_height_limit = Fin 2,
       root = Some (ITreeNode 1 5 (ITreeLeaf 0) (ITreeNode 1 5 (ITreeLeaf 0) (ITreeLeaf 4)))\<rparr>,
      \<lparr>tree_height_limit = Fin 2,
       root = Some (ITreeNode 0 (9 / 2)
                (ITreeNode 0 (5 / 2) (ITreeLeaf 2) (ITreeLeaf 1)) (ITreeLeaf 1))\<rparr>]"

definition demo_forest :: IForest where
  "demo_forest =
     \<lparr>num_trees = 2, subsample_size = PyFloat 1, trees = demo_trees,
      height_limit = Some (Fin 2), psi = Some (PyInt 4)\<rparr>"



definition demo_forest2 :: IForest where
  "demo_forest2 =
     \<lparr>num_trees = 2, subsample_size = PyFloat 1,
      trees =
        [\<lparr>tree_height_limit = Fin 2,
          root = Some (ITreeNode 1 5 (ITreeLeaf 0) (ITreeNode 1 5 (ITreeLeaf 0) (ITreeLeaf 2)))\<rparr>,
         \<lparr>tree_height_limit = Fin 2,
          root = Some (ITreeNode 0 (3 / 2) (ITreeLeaf 1) (ITreeLeaf 1))\<rparr>],
      height_limit = Some (Fin 2), psi = Some (PyInt 2)\<rparr>"


text \<open>Ten rows of one column, and a forest of one tree whose \<open>subsample_size\<close> is the
  float64 nearest to 0.1; the forest after \<open>fit\<close> on the ten rows.\<close>

definition ten_X :: ndarray where
  "ten_X = \<lparr>rows = [[0], [1], [2], [3], [4], [5], [6], [7], [8], [9]], ncols = 1\<rparr>"

definition tenth_forest_init :: IForest where
  "tenth_forest_init = IForest_init 1 (PyFloat (3602879701896397 / 36028797018963968)) None"

definition tenth_forest :: IForest where
  "tenth_forest =
     \<lparr>num_trees = 1, subsample_size = PyFloat (3602879701896397 / 36028797018963968),
      trees = [\<lparr>tree_height_limit = Fin 0, root = Some (ITreeLeaf 1)\<rparr>],
      height_limit = Some (Fin 0), psi = Some (PyInt 1)\<rparr>"

text \<open>A hundred equal rows of one column, and a forest of one tree whose
  \<open>subsample_size\<close> is the float64 nearest to 0.07, the value of the literal \<^verbatim>\<open>0.07\<close>; the
  forest after \<open>fit\<close> on the hundred rows.\<close>

definition hundred_X :: ndarray where
  "hundred_X = \<lparr>rows = replicate 100 [0], ncols = 1\<rparr>"

definition seven_forest_init :: IForest where
  "seven_forest_init = IForest_init 1 (PyFloat (1261007895663739 / 18014398509481984)) None"

definition seven_forest :: IForest where
  "seven_forest =
     \<lparr>num_trees = 1, subsample_size = PyFloat (1261007895663739 / 18014398509481984),
      trees = [\<lparr>tree_height_limit = Fin 3,
                root = Some (ITreeNode 0 0 (ITreeLeaf 0)
                         (ITreeNode 0 0 (ITreeLeaf 0)
                           (ITreeNode 0 0 (ITreeLeaf 0) (ITreeLeaf 8))))\<rparr>],
      height_limit = Some (Fin 3), psi = Some (PyInt 8)\<rparr>"

definition demo_query :: ndarray where
  "demo_query = \<lparr>rows = [[1, 5]], ncols = 2\<rparr>"

text \<open>A generator whose \<^verbatim>\<open>random_sample()\<close> is the largest float64 below 1, and two rows
  with the values 1 and 2.\<close>

definition edge_rng :: "nat RandomState" where
  "edge_rng =
     \<lparr>randint = (\<lambda>n s. (0, Suc s)),
      random_sample = (\<lambda>s. (9007199254740991 / 9007199254740992, Suc s)),
      permutation = (\<lambda>m s. ([0..<m], Suc s))\<rparr>"

definition edge_X :: ndarray where
  "edge_X = \<lparr>rows = [[1], [2]], ncols = 1\<rparr>"

definition edge_root :: ITreeNode64 where
  "edge_root = ITreeNode64 0 (Fin 2) (ITreeLeaf64 1) (ITreeLeaf64 1)"

definition demo_root64 :: ITreeNode64 where
  "demo_root64 =
     ITreeNode64 0 (Fin (9 / 2))
       (ITreeNode64 0 (Fin (5 / 2))
         (ITreeNode64 0 (Fin (3 / 2)) (ITreeLeaf64 1) (ITreeLeaf64 1)) (ITreeLeaf64 1))
       (ITreeLeaf64 1)"

definition demo_constant_root64 :: ITreeNode64 where
  "demo_constant_root64 =
     ITreeNode64 1 (Fin 5) (ITreeLeaf64 0)
       (ITreeNode64 1 (Fin 5) (ITreeLeaf64 0) (ITreeLeaf64 4))"

text \<open>A generator whose \<^verbatim>\<open>random_sample()\<close> is \<open>0.0\<close>, and two rows whose only feature
  takes the finite float64 values \<open>-2\<^sup>1\<^sup>0\<^sup>2\<^sup>3\<close> and \<open>2\<^sup>1\<^sup>0\<^sup>2\<^sup>3\<close>, so that \<open>b - a = 2\<^sup>1\<^sup>0\<^sup>2\<^sup>4\<close> is beyond
  the largest float64.\<close>

definition zero_rng :: "nat RandomState" where
  "zero_rng =
     \<lparr>randint = (\<lambda>n s. (0, Suc s)),
      random_sample = (\<lambda>s. (0, Suc s)),
      permutation = (\<lambda>m s. ([0..<m], Suc s))\<rparr>"

definition wide_X :: ndarray where
  "wide_X = \<lparr>rows = [[- (2 ^ 1023)], [2 ^ 1023]], ncols = 1\<rparr>"

definition wide_root :: ITreeNode64 where
  "wide_root = ITreeNode64 0 NaN (ITreeLeaf64 0) (ITreeLeaf64 0)"

section \<open>Properties of float64 rounding\<close>

lemma pow2_powr: "pow2 e = 2 powr (of_int e)"
proof (cases "0 \<le> e")
  case True
  then have "2 powr (of_int e) = (2::real) powr (real (nat e))" by simp
  also have "\<dots> = 2 ^ nat e" by (rule powr_realpow) simp
  finally show ?thesis using True by (simp add: pow2_def)
next
  case False
  then have "(2::real) powr (of_int e) = 2 powr (- real (nat (- e)))" by simp
  also have "\<dots> = 1 / 2 powr (real (nat (- e)))" by (simp add: powr_minus_divide)
  also have "2 powr (real (nat (- e))) = (2::real) ^ nat (- e)" by (rule powr_realpow) simp
  finally show ?thesis using False by (simp add: pow2_def)
qed

lemma pow2_pos: "0 < pow2 e"
  by (simp add: pow2_powr)

lemma pow2_add: "pow2 (i + j) = pow2 i * pow2 j"
  by (simp add: pow2_powr powr_add)

lemma pow2_nonneg_int: "0 \<le> e \<Longrightarrow> pow2 e = of_int (2 ^ nat e)"
  by (simp add: pow2_def)

lemma rne_of_int: "rne (of_int z) = z"
  by (simp add: rne_def)

lemma rne_down: "of_int f \<le> x \<Longrightarrow> x < of_int f + 1 / 2 \<Longrightarrow> rne x = f"
proof -
  assume a: "of_int f \<le> x" "x < of_int f + 1 / 2"
  then have "\<lfloor>x\<rfloor> = f" by linarith
  then show ?thesis using a by (simp add: rne_def Let_def)
qed

lemma rne_up: "of_int f + 1 / 2 < x \<Longrightarrow> x < of_int f + 1 \<Longrightarrow> rne x = f + 1"
proof -
  assume a: "of_int f + 1 / 2 < x" "x < of_int f + 1"
  then have "\<lfloor>x\<rfloor> = f" by linarith
  then show ?thesis using a by (simp add: rne_def Let_def)
qed

lemma rne_tie: "x = of_int f + 1 / 2 \<Longrightarrow> rne x = (if even f then f else f + 1)"
proof -
  assume a: "x = of_int f + 1 / 2"
  then have "\<lfloor>x\<rfloor> = f" by linarith
  then show ?thesis using a by (simp add: rne_def Let_def)
qed

lemma floor_log2: 
  assumes "pow2 e \<le> \<bar>x\<bar>" "\<bar>x\<bar> < pow2 (e + 1)"
  shows "\<lfloor>log 2 \<bar>x\<bar>\<rfloor> = e"
proof -
  have p: "0 < \<bar>x\<bar>" using assms(1) pow2_pos[of e] by linarith
  have "of_int e \<le> log 2 \<bar>x\<bar>"
    using assms(1) p by (simp add: pow2_powr le_log_iff)
  moreover have "log 2 \<bar>x\<bar> < of_int (e + 1)"
    using assms(2) p by (simp add: pow2_powr log_less_iff)
  ultimately show ?thesis by linarith
qed

lemma round64_eval:
  assumes "pow2 e \<le> \<bar>x\<bar>" "\<bar>x\<bar> < pow2 (e + 1)" "- 1022 \<le> e"
  shows "round64 x = of_int (rne (x / pow2 (e - 52))) * pow2 (e - 52)"
proof -
  have "x \<noteq> 0" using assms(1) pow2_pos[of e] by auto
  then show ?thesis using floor_log2[OF assms(1,2)] assms(3) by (simp add: round64_def Let_def max_def)
qed

lemma round64_exact:
  assumes "\<bar>k\<bar> < 2 ^ 53" "- 1074 \<le> j"
  shows "round64 (of_int k * pow2 j) = of_int k * pow2 j"
proof (cases "k = 0")
  case True
  then show ?thesis by (simp add: round64_def)
next
  case False
  define x where "x = of_int k * pow2 j"
  have x0: "x \<noteq> 0" using False pow2_pos[of j] by (simp add: x_def)
  have ax: "\<bar>x\<bar> = of_int \<bar>k\<bar> * pow2 j"
    using pow2_pos[of j] by (simp add: x_def abs_mult)
  have "of_int \<bar>k\<bar> < (2::real) ^ 53" using assms(1) by (metis of_int_less_numeral_power_cancel_iff)
  then have "\<bar>x\<bar> < 2 ^ 53 * pow2 j" unfolding ax using pow2_pos[of j] by simp
  also have "\<dots> = pow2 (53 + j)"
  proof -
    have p53: "pow2 53 = 2 ^ 53" by (simp add: pow2_def)
    show ?thesis by (simp only: pow2_add p53)
  qed
  finally have lt: "\<bar>x\<bar> < pow2 (53 + j)" .
  have "log 2 \<bar>x\<bar> < of_int (53 + j)"
    using lt x0 by (simp add: pow2_powr log_less_iff)
  then have "\<lfloor>log 2 \<bar>x\<bar>\<rfloor> < 53 + j" by linarith
  define e where "e = max \<lfloor>log 2 \<bar>x\<bar>\<rfloor> (- 1022) - 52"
  have ej: "e \<le> j" using \<open>\<lfloor>log 2 \<bar>x\<bar>\<rfloor> < 53 + j\<close> assms(2) by (simp add: e_def)
  have "pow2 j = pow2 e * pow2 (j - e)" using pow2_add[of e "j - e"] by simp
  also have "pow2 (j - e) = of_int (2 ^ nat (j - e))" using ej by (simp add: pow2_def)
  finally have pj: "pow2 j = pow2 e * of_int (2 ^ nat (j - e))" .
  have q: "x / pow2 e = of_int (k * 2 ^ nat (j - e))"
    using pow2_pos[of e] by (simp add: x_def pj)
  have "round64 x = of_int (rne (x / pow2 e)) * pow2 e"
    using x0 by (simp add: round64_def Let_def e_def)
  also have "\<dots> = of_int (k * 2 ^ nat (j - e)) * pow2 e"
    unfolding q rne_of_int ..
  also have "\<dots> = x" using pj by (simp add: x_def)
  finally show ?thesis by (simp add: x_def)
qed

lemma round64_int: "\<bar>k\<bar> < 2 ^ 53 \<Longrightarrow> round64 (of_int k) = of_int k"
  using round64_exact[of k 0] by (simp add: pow2_def)

section \<open>Properties of the estimator\<close>

lemma ln_lower: "0 < (y::real) \<Longrightarrow> 1 - 1 / y \<le> ln y"
proof -
  assume y: "0 < y"
  have "ln (1 / y) \<le> 1 / y - 1" using y by (intro ln_le_minus_one) simp
  then show ?thesis using y by (simp add: ln_div)
qed

lemma euler_gamma_gt_half: "1 / 2 < euler_gamma"
  by (simp add: euler_gamma_def)

lemma real_estimator_pos:
  assumes "2 < (x::real)"
  shows "0 < 2 * (ln (x - 1) + euler_gamma) - 2 * (x - 1) / x"
proof -
  define L where "L = ln (x - 1)"
  define A where "A = 1 / (x - 1)"
  define B where "B = 2 / x"
  have h1: "1 - A \<le> L"
    unfolding L_def A_def using assms by (intro ln_lower) simp
  have "2 * x \<le> x * x" using assms by (intro mult_right_mono) auto
  then have h: "x + 2 \<le> x * x" using assms by linarith
  have h2: "1 - B \<le> 2 * (1 - A)"
    unfolding A_def B_def using assms by (simp add: field_simps h)
  have h3: "2 * (x - 1) / x = 2 - B"
    unfolding B_def using assms by (simp add: field_simps)
  have "0 < 2 * (L + euler_gamma) - (2 - B)"
    using h1 h2 euler_gamma_gt_half by argo
  then show ?thesis unfolding L_def h3 .
qed

lemma floor_case: "3 \<le> n \<Longrightarrow> (2 * (n - 1)) div n = (1::int)"
proof -
  assume n: "3 \<le> n"
  have "2 * (n - 1) = 1 * n + (n - 2)" by simp
  moreover have "0 \<le> n - 2" "n - 2 < n" using n by auto
  ultimately show ?thesis
    by (metis div_pos_pos_trivial div_mult_self4 add.commute add.right_neutral mult.commute n not_numeral_le_zero order_trans zero_neq_one zero_le_one dual_order.strict_iff_order)
qed

lemma adjustment_pos:
  assumes "2 \<le> num_val p"
  shows "0 < adjustment E p"
proof (cases p)
  case (PyInt n)
  then have n: "2 \<le> n" using assms by simp
  show ?thesis
  proof (cases "n = 2")
    case True
    then show ?thesis using PyInt by simp
  next
    case False
    then have n3: "3 \<le> n" using n by simp
    show ?thesis
    proof (cases "true_division E")
      case True
      have "2 < (of_int n :: real)" using n3 by simp
      from real_estimator_pos[OF this] show ?thesis
        using PyInt n3 True by simp
    next
      case False
      have eq: "adjustment E p = 2 * (ln (of_int (n - 1)) + euler_gamma) - 1"
        using PyInt n3 False floor_case[OF n3] by simp
      have "0 \<le> ln (of_int (n - 1) :: real)" using n3 by simp
      then show ?thesis
        unfolding eq using euler_gamma_gt_half by argo
    qed
  qed
next
  case (PyFloat x)
  then have x: "2 \<le> x" using assms by simp
  show ?thesis
  proof (cases "x = 2")
    case True
    then show ?thesis using PyFloat by simp
  next
    case False
    then have "2 < x" using x by simp
    from real_estimator_pos[OF this] show ?thesis using PyFloat \<open>2 < x\<close> by simp
  qed
qed

lemma adjustment_leaf_nonneg: "0 \<le> adjustment E (PyInt (int k))"
proof (cases "2 \<le> k")
  case True
  then have "2 \<le> num_val (PyInt (int k))" by simp
  then have "0 < adjustment E (PyInt (int k))" by (rule adjustment_pos)
  then show ?thesis by (rule less_imp_le)
next
  case False
  then show ?thesis by simp
qed


lemma adjustment_true_division:
  "true_division E \<Longrightarrow> adjustment E (PyInt (int n)) = c_ref n"
  by (auto simp: c_ref_def)

lemma adjustment_small: "n \<le> 2 \<Longrightarrow> adjustment E (PyInt (int n)) = c_ref n"
  by (auto simp: c_ref_def)

lemma adjustment_floor_division:
  assumes "\<not> true_division E" "3 \<le> n"
  shows "adjustment E (PyInt (int n)) = c_ref n + (real n - 2) / real n"
proof -
  have "3 \<le> int n" using assms by simp
  from floor_case[OF this] show ?thesis
    using assms by (simp add: c_ref_def field_simps)
qed

lemma adjustment_python3_at_3: "adjustment python3 (PyInt 3) = c_ref 3"
  by (simp add: python3_def c_ref_def)

text \<open>
  Claim C2: the estimator equals the reference definition on every non-negative integer.
  Under true division it does (\<open>adjustment_true_division\<close>), and for \<open>n \<le> 2\<close> it
  does under either division (\<open>adjustment_small\<close>). Under the floor division of
  Python 2, which the repository is written for, the subtracted term \<^verbatim>\<open>2*(n-1) / n\<close>
  is the integer 1 for every int \<open>n \<ge> 3\<close> (\<open>adjustment_floor_division\<close>). At
  \<open>n = 3\<close> the code returns \<open>2 (ln 2 + \<gamma>) - 1\<close> where the reference definition
  gives \<open>2 (ln 2 + \<gamma>) - 4/3\<close>.
\<close>

theorem adjustment_python2_differs_at_3:
  "adjustment python2 (PyInt 3) = 2 * (ln 2 + euler_gamma) - 1
   \<and> c_ref 3 = 2 * (ln 2 + euler_gamma) - 4 / 3
   \<and> adjustment python2 (PyInt 3) \<noteq> c_ref 3"
  by (simp add: python2_def c_ref_def)

section \<open>Properties of tree construction and of the path-length query\<close>

lemma grow_leaf:
  "height_reached d h \<or> length (rows X) \<le> 1 \<Longrightarrow>
   grow G X d h s = Some (Inr (ITreeLeaf (length (rows X)), s))"
  by (subst grow.simps) simp

lemma grow_ITreeLeafD:
  assumes "grow G X d h s = Some (Inr (ITreeLeaf k, s'))"
  shows "(height_reached d h \<or> length (rows X) \<le> 1) \<and> k = length (rows X) \<and> s' = s"
  using assms
  by (subst (asm) grow.simps)
     (auto simp: Let_def split: if_splits prod.splits sum.splits Option.bind_splits)

lemma grow_ITreeNodeD:
  assumes "grow G X d h s = Some (Inr (ITreeNode att v l r, s'))"
  shows "\<not> height_reached d h \<and> 2 \<le> length (rows X) \<and> att < ncols X \<and>
    (\<exists>s1 u s2 s3.
       randint G (ncols X) s = (att, s1) \<and> random_sample G s1 = (u, s2) \<and>
       v = py_min (column X att) + (py_max (column X att) - py_min (column X att)) * u \<and>
       grow G (select_rows (\<lambda>r. r ! att < v) X) (d + 1) h s2 = Some (Inr (l, s3)) \<and>
       grow G (select_rows (\<lambda>r. v \<le> r ! att) X) (d + 1) h s3 = Some (Inr (r, s')))"
  using assms
  by (subst (asm) grow.simps)
     (auto simp: Let_def split: if_splits prod.splits sum.splits Option.bind_splits)

lemma grow_node:
  assumes "\<not> height_reached d h" "2 \<le> length (rows X)" "att < ncols X"
    and "randint G (ncols X) s = (att, s1)" "random_sample G s1 = (u, s2)"
    and "v = py_min (column X att) + (py_max (column X att) - py_min (column X att)) * u"
    and "grow G (select_rows (\<lambda>r. r ! att < v) X) (d + 1) h s2 = Some (Inr (l, s3))"
    and "grow G (select_rows (\<lambda>r. v \<le> r ! att) X) (d + 1) h s3 = Some (Inr (r, s4))"
  shows "grow G X d h s = Some (Inr (ITreeNode att v l r, s4))"
  using assms by (subst grow.simps) (simp add: Let_def)

lemma grow_returns_Fin: "\<exists>res. grow G X d (Fin r) s = Some res"
proof (induction k \<equiv> "nat \<lceil>r\<rceil> - d" arbitrary: d X s)
  case 0
  then have "r \<le> real d" by linarith
  then show ?case by (simp add: grow_leaf)
next
  case (Suc k)
  show ?case
  proof (cases "height_reached d (Fin r) \<or> length (rows X) \<le> 1")
    case True
    then show ?thesis by (simp add: grow_leaf)
  next
    case False
    have k: "k = nat \<lceil>r\<rceil> - (d + 1)" using Suc.hyps(2) by simp
    obtain att s1 where a: "randint G (ncols X) s = (att, s1)" by force
    obtain u s2 where u: "random_sample G s1 = (u, s2)" by force
    define v where "v = py_min (column X att) + (py_max (column X att) - py_min (column X att)) * u"
    obtain resl where l: "grow G (select_rows (\<lambda>r. r ! att < v) X) (d + 1) (Fin r) s2 = Some resl"
      using Suc.hyps(1)[OF k] by blast
    show ?thesis
    proof (cases resl)
      case (Inl e)
      then show ?thesis using False a u l
        by (subst grow.simps) (simp add: Let_def v_def)
    next
      case (Inr p)
      obtain lt s3 where p: "p = (lt, s3)" by force
      obtain resr where r: "grow G (select_rows (\<lambda>r. v \<le> r ! att) X) (d + 1) (Fin r) s3 = Some resr"
        using Suc.hyps(1)[OF k] by blast
      show ?thesis using False a u l Inr p r
        by (subst grow.simps) (auto simp add: Let_def v_def split: sum.splits)
    qed
  qed
qed

lemma grow_NInf: "grow G X d NInf s = Some (Inr (ITreeLeaf (length (rows X)), s))"
  by (simp add: grow_leaf)

text \<open>A limit below zero is reached at once: the tree is a single leaf.\<close>

lemma grow_negative_limit:
  "h < 0 \<Longrightarrow> grow G X 0 (Fin h) s = Some (Inr (ITreeLeaf (length (rows X)), s))"
  by (simp add: grow_leaf)

lemma tree_depth_grow:
  assumes "grow G X d (Fin (of_int h)) s = Some (Inr (t, s'))" "int d \<le> h"
  shows "int (d + tree_depth t) \<le> h"
  using assms
proof (induction t arbitrary: X d s s')
  case (ITreeLeaf k)
  then show ?case by simp
next
  case (ITreeNode att v l r)
  from grow_ITreeNodeD[OF ITreeNode.prems(1)] obtain s2 s3 where
    nr: "\<not> height_reached d (Fin (of_int h))" and
    gl: "grow G (select_rows (\<lambda>r. r ! att < v) X) (d + 1) (Fin (of_int h)) s2 = Some (Inr (l, s3))" and
    gr: "grow G (select_rows (\<lambda>r. v \<le> r ! att) X) (d + 1) (Fin (of_int h)) s3 = Some (Inr (r, s'))"
    by blast
  from nr have d1: "int (d + 1) \<le> h" by simp
  from ITreeNode.IH(1)[OF gl d1] ITreeNode.IH(2)[OF gr d1]
  show ?case by simp
qed

lemma path_loop_le_depth:
  "path_loop t x acc = Inr (pl, ls) \<Longrightarrow> acc \<le> pl \<and> pl \<le> acc + tree_depth t"
proof (induction t arbitrary: acc)
  case (ITreeLeaf k)
  then show ?case by simp
next
  case (ITreeNode att v l r)
  then show ?case by (fastforce split: if_splits)
qed

lemma features_below_grow:
  assumes "grow G X d h s = Some (Inr (t, s'))"
  shows "features_below (ncols X) t"
  using assms
proof (induction t arbitrary: X d s s')
  case (ITreeLeaf k)
  then show ?case by simp
next
  case (ITreeNode att v l r)
  from grow_ITreeNodeD[OF ITreeNode.prems(1)] obtain s2 s3 where
    a: "att < ncols X" and
    gl: "grow G (select_rows (\<lambda>r. r ! att < v) X) (d + 1) h s2 = Some (Inr (l, s3))" and
    gr: "grow G (select_rows (\<lambda>r. v \<le> r ! att) X) (d + 1) h s3 = Some (Inr (r, s'))"
    by blast
  from ITreeNode.IH(1)[OF gl] ITreeNode.IH(2)[OF gr] a
  show ?case by (simp add: select_rows_def)
qed

lemma split_lengths:
  "length (rows (select_rows (\<lambda>row. row ! att < (v::real)) X))
   + length (rows (select_rows (\<lambda>row. v \<le> row ! att) X)) = length (rows X)"
proof -
  have "(\<lambda>row. v \<le> row ! att) = (\<lambda>row. \<not> row ! att < v)" by (auto simp: not_less)
  then show ?thesis by (simp add: select_rows_def sum_length_filter_compl)
qed

lemma demo_tree_fit:
  "ITree_fit counter_rng \<lparr>tree_height_limit = Fin 3, root = None\<rparr> demo_X 0
     = Some (Inr (demo_tree, 6))"
  by code_simp

lemma demo_tree_query: "path_length_and_leaf_size demo_tree [1, 5] = Inr (3, 1)"
  by code_simp

lemma ITree_fit_InrD:
  assumes "ITree_fit G T0 X s = Some (Inr (T, s'))"
  shows "\<exists>nd. grow G X 0 (tree_height_limit T0) s = Some (Inr (nd, s')) \<and> T = T0\<lparr>root := Some nd\<rparr>"
  using assms
  by (auto simp: ITree_fit_def split: Option.bind_splits sum.splits)

text \<open>
  Claim C5: for a tree built with \<^verbatim>\<open>height_limit = h\<close>, a non-negative integer as the
  constructor documents it, no path-length query returns a path length above \<open>h\<close>;
  equivalently, no node of the built tree lies deeper than \<open>h\<close>.
\<close>

theorem path_length_at_most_height_limit:
  assumes "tree_height_limit T0 = Fin (of_int h)" and "0 \<le> h"
    and "ITree_fit G T0 X s = Some (Inr (T, s'))"
    and "path_length_and_leaf_size T x = Inr (path_length, leaf_size)"
  shows "int path_length \<le> h \<and> (\<exists>nd. root T = Some nd \<and> int (tree_depth nd) \<le> h)"
proof -
  from ITree_fit_InrD[OF assms(3)] obtain nd where
    g: "grow G X 0 (Fin (of_int h)) s = Some (Inr (nd, s'))" and T: "root T = Some nd"
    using assms(1) by auto
  from tree_depth_grow[OF g] assms(2) have d: "int (tree_depth nd) \<le> h" by simp
  from assms(4) T have "path_loop nd x 0 = Inr (path_length, leaf_size)"
    by (simp add: path_length_and_leaf_size_def)
  from path_loop_le_depth[OF this] have "path_length \<le> tree_depth nd" by simp
  with d T show ?thesis by simp
qed

theorem path_length_at_most_height_limit_witness:
  "ITree_fit counter_rng \<lparr>tree_height_limit = Fin 3, root = None\<rparr> demo_X 0
     = Some (Inr (demo_tree, 6))
   \<and> path_length_and_leaf_size demo_tree [1, 5] = Inr (3, 1)
   \<and> int 3 \<le> 3"
  using path_length_at_most_height_limit
    [of "\<lparr>tree_height_limit = Fin 3, root = None\<rparr>" 3 counter_rng demo_X 0 demo_tree 6 "[1, 5]" 3 1]
    demo_tree_fit demo_tree_query
  by simp

lemma grow_no_raise_aux:
  assumes g: "grow G X d h s = Some y"
  shows "randint_ok G \<longrightarrow> 0 < ncols X \<longrightarrow> (\<exists>t s'. y = Inr (t, s'))"
  apply (rule grow.raw_induct
    [where P = "\<lambda>G X d h s y. randint_ok G \<longrightarrow> 0 < ncols X \<longrightarrow> (\<exists>t s'. y = Inr (t, s'))",
     OF _ g])
  subgoal premises prems for grw G X d h s y
  proof (intro impI)
    note IH = prems(1) and body = prems(2)
    assume ok: "randint_ok G" and n: "0 < ncols X"
    obtain att s1 where a: "randint G (ncols X) s = (att, s1)" by force
    from ok n have "fst (randint G (ncols X) s) < ncols X"
      unfolding randint_ok_def by blast
    with a have an: "att < ncols X" by simp
    obtain u s2 where u: "random_sample G s1 = (u, s2)" by force
    show "\<exists>t s'. y = Inr (t, s')"
    proof (cases "height_reached d h \<or> length (rows X) \<le> 1")
      case True
      with body show ?thesis by auto
    next
      case False
      define v where
        "v = py_min (column X att) + (py_max (column X att) - py_min (column X att)) * u"
      from body False a an u obtain rl where
        l: "grw G (select_rows (\<lambda>r. r ! att < v) X) (d + 1) h s2 = Some rl"
        by (auto simp: Let_def v_def split: if_splits Option.bind_splits)
      from IH[OF l] ok n obtain lt s3 where rl: "rl = Inr (lt, s3)"
        by (auto simp: select_rows_def)
      from body False a an u l rl obtain rr where
        r: "grw G (select_rows (\<lambda>r. v \<le> r ! att) X) (d + 1) h s3 = Some rr"
        by (auto simp: Let_def v_def split: if_splits Option.bind_splits)
      from IH[OF r] ok n obtain rt s4 where rr: "rr = Inr (rt, s4)"
        by (auto simp: select_rows_def)
      from body False a an u l rl r rr show ?thesis
        by (auto simp: Let_def v_def split: if_splits)
    qed
  qed
  done

lemma grow_no_raise:
  assumes "grow G X d h s = Some y" "randint_ok G" "0 < ncols X"
  shows "\<exists>t s'. y = Inr (t, s')"
  using grow_no_raise_aux[OF assms(1)] assms(2,3) by blast

lemma py_min_Min: "xs \<noteq> [] \<Longrightarrow> py_min xs = Min (set xs)"
proof -
  assume "xs \<noteq> []"
  then obtain y ys where xs: "xs = y # ys" by (cases xs) auto
  have "foldl min y ys = fold min ys y"
    by (simp add: foldl_conv_fold min.commute)
  moreover have "Min (set (y # ys)) = fold min ys y" by (rule Min.set_eq_fold)
  ultimately show ?thesis unfolding xs py_min_def by (simp del: set_simps)
qed

lemma py_max_Max: "xs \<noteq> [] \<Longrightarrow> py_max xs = Max (set xs)"
proof -
  assume "xs \<noteq> []"
  then obtain y ys where xs: "xs = y # ys" by (cases xs) auto
  have "foldl max y ys = fold max ys y"
    by (simp add: foldl_conv_fold max.commute)
  moreover have "Max (set (y # ys)) = fold max ys y" by (rule Max.set_eq_fold)
  ultimately show ?thesis unfolding xs py_max_def by (simp del: set_simps)
qed

lemma randint_ok_counter_rng: "randint_ok counter_rng"
  by (simp add: randint_ok_def counter_rng_def)

lemma sample_ok_counter_rng: "sample_ok counter_rng"
  by (simp add: sample_ok_def counter_rng_def)

lemma demo_root_grow: "grow counter_rng demo_X 0 (Fin 3) 0 = Some (Inr (demo_root, 6))"
  by code_simp

lemma demo_constant_root_grow:
  "grow counter_rng demo_X 0 (Fin 2) 1 = Some (Inr (demo_constant_root, 5))"
  by code_simp

lemma threshold_range:
  fixes a b u :: real
  assumes "a \<le> b" "0 \<le> u" "u < 1"
  shows "a \<le> a + (b - a) * u \<and> (a + (b - a) * u < b \<or> (a = b \<and> a + (b - a) * u = a))"
proof (cases "a = b")
  case True
  then show ?thesis by simp
next
  case False
  then have p: "0 < b - a" using assms(1) by simp
  then have "(b - a) * u < (b - a) * 1" using assms(3) by (intro mult_strict_left_mono) auto
  moreover have "0 \<le> (b - a) * u" using p assms(2) by simp
  ultimately show ?thesis by simp
qed

lemma grow_returns_tree:
  assumes "randint_ok G" "0 < ncols X"
  shows "\<exists>t s'. grow G X d (Fin r) s = Some (Inr (t, s'))"
proof -
  from grow_returns_Fin[of G X d r s] obtain y where y: "grow G X d (Fin r) s = Some y" by blast
  from grow_no_raise[OF y assms] y show ?thesis by blast
qed

lemma constant_column:
  assumes "2 \<le> length (rows X)" "py_min (column X att) = py_max (column X att)"
    and "row \<in> set (rows X)"
  shows "row ! att = py_min (column X att)"
proof -
  have ne: "column X att \<noteq> []" using assms(1) by (auto simp: column_def)
  have x: "row ! att \<in> set (column X att)" using assms(3) by (auto simp: column_def)
  have "Min (set (column X att)) \<le> row ! att" using x by (intro Min_le) auto
  moreover have "row ! att \<le> Max (set (column X att))" using x by (intro Max_ge) auto
  ultimately show ?thesis
    using assms(2) py_min_Min[OF ne] py_max_Max[OF ne] by simp
qed

text \<open>
  Claim C6: when the chosen feature is constant over the rows of a node (\<open>a = b\<close>), the
  threshold is \<open>a\<close>, no row goes left, every row goes right, and the node is built with
  an empty left leaf and the right child grown from all the rows one level deeper. The
  split raises nothing: with a generator that keeps \<^verbatim>\<open>randint\<close> below \<open>n\<close>, the call
  never ends in an exception.
\<close>

theorem constant_feature_split:
  assumes "\<not> height_reached d h" and "2 \<le> length (rows X)"
    and "randint G (ncols X) s = (att, s1)" and "att < ncols X"
    and "random_sample G s1 = (u, s2)"
    and "py_min (column X att) = a" and "py_max (column X att) = b" and "a = b"
  shows "a + (b - a) * u = a
    \<and> list_all (\<lambda>row. a \<le> row ! att) (rows X)
    \<and> rows (select_rows (\<lambda>row. row ! att < a) X) = []
    \<and> select_rows (\<lambda>row. a \<le> row ! att) X = X
    \<and> grow G X d h s =
        Option.bind (grow G X (d + 1) h s2)
          (\<lambda>res. case res of
             Inl e \<Rightarrow> Some (Inl e)
           | Inr (r, s') \<Rightarrow> Some (Inr (ITreeNode att a (ITreeLeaf 0) r, s')))
    \<and> (randint_ok G \<longrightarrow> (\<forall>e. grow G X d h s \<noteq> Some (Inl e)))"
proof -
  have all: "\<And>row. row \<in> set (rows X) \<Longrightarrow> row ! att = a"
    using constant_column[OF assms(2), of att] assms(6,7,8) by simp
  have v: "a + (b - a) * u = a" using assms(8) by simp
  have ge: "list_all (\<lambda>row. a \<le> row ! att) (rows X)"
    using all by (simp add: list_all_iff)
  have left: "rows (select_rows (\<lambda>row. row ! att < a) X) = []"
    using all by (simp add: select_rows_def filter_empty_conv)
  have right: "select_rows (\<lambda>row. a \<le> row ! att) X = X"
    using all by (simp add: select_rows_def filter_id_conv)
  have gl: "grow G (select_rows (\<lambda>row. row ! att < a) X) (d + 1) h s2
              = Some (Inr (ITreeLeaf 0, s2))"
    using grow_leaf[of "d + 1" h "select_rows (\<lambda>row. row ! att < a) X" G s2] left by simp
  have g: "grow G X d h s =
        Option.bind (grow G X (d + 1) h s2)
          (\<lambda>res. case res of
             Inl e \<Rightarrow> Some (Inl e)
           | Inr (r, s') \<Rightarrow> Some (Inr (ITreeNode att a (ITreeLeaf 0) r, s')))"
  proof -
    have mx: "py_max (column X att) = a" using assms(7,8) by simp
    show ?thesis
      using assms(1-6) mx gl right
      by (subst grow.simps) (simp add: Let_def)
  qed
  have nr: "randint_ok G \<longrightarrow> (\<forall>e. grow G X d h s \<noteq> Some (Inl e))"
  proof (intro impI allI notI)
    fix e assume ok: "randint_ok G" and e: "grow G X d h s = Some (Inl e)"
    from assms(4) have "0 < ncols X" by simp
    from grow_no_raise[OF e ok this] show False by simp
  qed
  from v ge left right g nr show ?thesis by blast
qed

theorem constant_feature_split_witness:
  "randint counter_rng (ncols demo_X) 1 = (1, 2)
   \<and> py_min (column demo_X 1) = 5 \<and> py_max (column demo_X 1) = 5
   \<and> rows (select_rows (\<lambda>row. row ! 1 < 5) demo_X) = []
   \<and> select_rows (\<lambda>row. 5 \<le> row ! 1) demo_X = demo_X
   \<and> grow counter_rng demo_X 0 (Fin 2) 1 = Some (Inr (demo_constant_root, 5))"
proof -
  have h1: "\<not> height_reached 0 (Fin 2)" by simp
  have h2: "2 \<le> length (rows demo_X)" by (simp add: demo_X_def)
  have h3: "randint counter_rng (ncols demo_X) 1 = (1, 2)"
    by (simp add: counter_rng_def demo_X_def)
  have h4: "1 < ncols demo_X" by (simp add: demo_X_def)
  have h5: "random_sample counter_rng 2 = (1 / 2, 3)" by (simp add: counter_rng_def)
  have h6: "py_min (column demo_X 1) = 5" by (simp add: py_min_def column_def demo_X_def)
  have h7: "py_max (column demo_X 1) = 5" by (simp add: py_max_def column_def demo_X_def)
  from constant_feature_split[OF h1 h2 h3 h4 h5 h6 h7 refl] h3 h6 h7 demo_constant_root_grow
  show ?thesis by simp
qed

text \<open>
  Row conservation in exact arithmetic. In every tree that \<open>grow\<close> returns, at every
  internal node the rows sent left and the rows sent right are together as many as the
  rows that reached the node, every leaf records the number of rows that reached it, and
  so the leaf sizes of the tree add up to the number of rows it was built from. The
  constant feature is no exception.
\<close>

theorem row_conservation:
  assumes "grow G X d h s = Some (Inr (t, s'))"
  shows "conserves t X \<and> leaf_total t = length (rows X)"
  using assms
proof (induction t arbitrary: X d s s')
  case (ITreeLeaf k)
  from grow_ITreeLeafD[OF this] show ?case by simp
next
  case (ITreeNode att v l r)
  from grow_ITreeNodeD[OF ITreeNode.prems(1)] obtain s2 s3 where
    gl: "grow G (select_rows (\<lambda>r. r ! att < v) X) (d + 1) h s2 = Some (Inr (l, s3))" and
    gr: "grow G (select_rows (\<lambda>r. v \<le> r ! att) X) (d + 1) h s3 = Some (Inr (r, s'))"
    by blast
  from ITreeNode.IH(1)[OF gl] ITreeNode.IH(2)[OF gr] split_lengths[of att v X]
  show ?case by (simp add: Let_def)
qed

theorem row_conservation_witness:
  "grow counter_rng demo_X 0 (Fin 2) 1 = Some (Inr (demo_constant_root, 5))
   \<and> conserves demo_constant_root demo_X
   \<and> leaf_total demo_constant_root = 4 \<and> length (rows demo_X) = 4"
  using row_conservation[OF demo_constant_root_grow] demo_constant_root_grow
  by (simp add: demo_X_def)

section \<open>Properties of the forest\<close>

declare adjustment.simps [simp del]

lemma path_loop_returns:
  "features_below n nd \<Longrightarrow> n \<le> length x \<Longrightarrow> \<exists>pl ls. path_loop nd x acc = Inr (pl, ls)"
  by (induction nd arbitrary: acc) auto

lemma query_returns:
  assumes "tree_ok n T" "n \<le> length x"
  shows "\<exists>pl ls. path_length_and_leaf_size T x = Inr (pl, ls)"
proof -
  from assms(1) obtain nd where nd: "root T = Some nd" "features_below n nd"
    by (auto simp: tree_ok_def split: option.splits)
  from path_loop_returns[OF nd(2) assms(2), of 0] nd(1) show ?thesis
    by (simp add: path_length_and_leaf_size_def)
qed

lemma tree_term_nonneg: "0 \<le> tree_term E T x"
  using adjustment_leaf_nonneg
  by (auto simp: tree_term_def split: sum.splits prod.splits)

lemma score_row_sum:
  assumes "list_all (tree_ok n) ts" "n \<le> length x"
  shows "score_row E ts x acc = Inr (acc + (\<Sum>T\<leftarrow>ts. tree_term E T x))"
  using assms(1)
proof (induction ts arbitrary: acc)
  case Nil
  then show ?case by simp
next
  case (Cons T ts)
  from Cons.prems have T: "tree_ok n T" and ts: "list_all (tree_ok n) ts" by simp_all
  from query_returns[OF T assms(2)] obtain pl ls where
    q: "path_length_and_leaf_size T x = Inr (pl, ls)" by blast
  then have a: "tree_term E T x = real pl + adjustment E (PyInt (int ls))"
    by (simp add: tree_term_def)
  show ?case using q a Cons.IH[OF ts] by (simp add: algebra_simps)
qed


lemma score_rows_map:
  assumes "list_all (tree_ok n) ts" "list_all (\<lambda>x. n \<le> length x) xs"
  shows "score_rows E ts xs = Inr (map (\<lambda>x. \<Sum>T\<leftarrow>ts. tree_term E T x) xs)"
  using assms(2)
proof (induction xs)
  case Nil
  then show ?case by simp
next
  case (Cons x xs)
  then have x: "n \<le> length x" and xs: "list_all (\<lambda>x. n \<le> length x) xs" by simp_all
  show ?case using score_row_sum[OF assms(1) x, of E 0] Cons.IH[OF xs] by simp
qed


lemma sum_tree_term_nonneg: "0 \<le> (\<Sum>T\<leftarrow>ts. tree_term E T x)"
  by (intro sum_list_nonneg) (auto simp: tree_term_nonneg)

lemma take_rows_ncols: "take_rows X idx = Inr Y \<Longrightarrow> ncols Y = ncols X"
  by (auto simp: take_rows_def split: if_splits)

lemma ITree_fit_tree_ok:
  assumes "ITree_fit G T0 X s = Some (Inr (T, s'))"
  shows "tree_ok (ncols X) T \<and> tree_height_limit T = tree_height_limit T0"
proof -
  from ITree_fit_InrD[OF assms] obtain nd where
    g: "grow G X 0 (tree_height_limit T0) s = Some (Inr (nd, s'))" and T: "T = T0\<lparr>root := Some nd\<rparr>"
    by blast
  from features_below_grow[OF g] T show ?thesis by (simp add: tree_ok_def)
qed

lemma fit_loop_InrD:
  assumes "fit_loop k E G h p X ts s = Some (Inr (ts', s'))"
    and "list_all (tree_ok (ncols X)) ts"
  shows "list_all (tree_ok (ncols X)) ts' \<and> length ts' = length ts + k"
  using assms
proof (induction k arbitrary: ts s)
  case 0
  then show ?case by simp
next
  case (Suc k)
  obtain perm s1 where pm: "permutation G (length (rows X)) s = (perm, s1)" by force
  from Suc.prems(1) pm obtain idx where idx: "slice_to_num E p perm = Inr idx"
    by (cases "slice_to_num E p perm") auto
  from Suc.prems(1) pm idx obtain Xs where Xs: "take_rows X idx = Inr Xs"
    by (cases "take_rows X idx") auto
  from Suc.prems(1) pm idx Xs obtain T s2 where
    T: "ITree_fit G \<lparr>tree_height_limit = h, root = None\<rparr> Xs s1 = Some (Inr (T, s2))" and
    rest: "fit_loop k E G h p X (ts @ [T]) s2 = Some (Inr (ts', s'))"
    by (auto split: Option.bind_splits sum.splits)
  from ITree_fit_tree_ok[OF T] take_rows_ncols[OF Xs] have "tree_ok (ncols X) T" by simp
  with Suc.prems(2) have "list_all (tree_ok (ncols X)) (ts @ [T])" by simp
  from Suc.IH[OF rest this] show ?case by simp
qed

lemma fit_InrD:
  assumes "fit E G F X s = Some (F', Inr s')"
  shows "\<exists>ts. fit_loop (nat (num_trees F)) E G (fit_height_limit F (fit_psi F X)) (fit_psi F X) X [] s
             = Some (Inr (ts, s'))
    \<and> F' = F\<lparr>height_limit := Some (fit_height_limit F (fit_psi F X)),
              trees := ts, psi := Some (fit_psi F X)\<rparr>"
  using assms
  by (auto simp: fit_def Let_def split: option.splits sum.splits)

lemma fit_trees_ok:
  assumes "fit E G F X s = Some (F', Inr s')"
  shows "list_all (tree_ok (ncols X)) (trees F') \<and> int (length (trees F')) = max 0 (num_trees F)
    \<and> num_trees F' = num_trees F \<and> psi F' = Some (fit_psi F X)"
proof -
  from fit_InrD[OF assms] obtain ts where
    l: "fit_loop (nat (num_trees F)) E G (fit_height_limit F (fit_psi F X)) (fit_psi F X) X [] s
             = Some (Inr (ts, s'))" and
    F': "F' = F\<lparr>height_limit := Some (fit_height_limit F (fit_psi F X)),
              trees := ts, psi := Some (fit_psi F X)\<rparr>" by blast
  from fit_loop_InrD[OF l] F' show ?thesis by auto
qed

lemma to_score_Fin:
  assumes "0 < len" "0 < adjustment E p"
  shows "to_score E len p sc = Fin (2 powr (- (sc / real len) / adjustment E p))"
  using assms by (simp add: to_score_def)

lemma powr_unit_interval:
  fixes z :: real
  assumes "0 \<le> z"
  shows "0 < 2 powr (- z) \<and> 2 powr (- z) \<le> 1"
proof -
  have "2 powr (- z) \<le> 2 powr (0::real)" using assms by (intro powr_mono) auto
  then show ?thesis by simp
qed

text \<open>What \<open>predict\<close> returns, in closed form.\<close>

lemma predict_closed_form:
  assumes "fit E G F0 X_train s = Some (F, Inr s')"
    and "psi F = Some p" and "2 \<le> num_val p" and "trees F \<noteq> []"
    and "list_all (\<lambda>x. ncols X_train \<le> length x) (rows X)"
  shows "predict E F X = Inr (map (\<lambda>x. Fin (code_score E F p x)) (rows X))
    \<and> list_all (\<lambda>x. 0 < code_score E F p x \<and> code_score E F p x \<le> 1) (rows X)"
proof -
  from fit_trees_ok[OF assms(1)] have
    ok: "list_all (tree_ok (ncols X_train)) (trees F)" and
    len: "int (length (trees F)) = max 0 (num_trees F0)" and
    nt: "num_trees F = num_trees F0" by simp_all
  from assms(4) have pos: "0 < length (trees F)" by simp
  with len nt have n: "real (length (trees F)) = of_int (num_trees F)"
    by (metis int_ops(1) max.commute max_def of_int_of_nat_eq of_nat_0_less_iff of_nat_less_0_iff order_less_le)
  have c: "0 < adjustment E p" by (rule adjustment_pos[OF assms(3)])
  have sums: "score_rows E (trees F) (rows X)
                = Inr (map (\<lambda>x. \<Sum>T\<leftarrow>trees F. tree_term E T x) (rows X))"
    by (rule score_rows_map[OF ok assms(5)])
  have norm: "\<And>x. to_score E (length (trees F)) p (\<Sum>T\<leftarrow>trees F. tree_term E T x)
                  = Fin (code_score E F p x)"
    using to_score_Fin[OF pos c] n by (simp add: code_score_def)
  have p1: "predict E F X = Inr (map (\<lambda>x. Fin (code_score E F p x)) (rows X))"
    using sums assms(2) norm by (simp add: predict_def comp_def)
  have range: "\<And>x. 0 < code_score E F p x \<and> code_score E F p x \<le> 1"
  proof -
    fix x
    have "0 \<le> (\<Sum>T\<leftarrow>trees F. tree_term E T x) / of_int (num_trees F) / adjustment E p"
      using sum_tree_term_nonneg[of E x "trees F"] c n[symmetric] by simp
    from powr_unit_interval[OF this] show "0 < code_score E F p x \<and> code_score E F p x \<le> 1"
      by (simp add: code_score_def)
  qed
  then have p2: "list_all (\<lambda>x. 0 < code_score E F p x \<and> code_score E F p x \<le> 1) (rows X)"
    by (simp add: list_all_iff)
  from p1 p2 show ?thesis by blast
qed

lemma log2_4: "np_ceil (np_log2 4) = Fin 2"
proof -
  have "log 2 4 = log 2 ((2::real) ^ 2)" by simp
  also have "\<dots> = real 2" by (rule log_pow_cancel) auto
  finally have "log 2 4 = (2::real)" by simp
  then show ?thesis by (simp add: np_log2_def)
qed

lemma log2_1: "np_ceil (np_log2 1) = Fin 0"
  by (simp add: np_log2_def)

lemma demo_fit_loop:
  "fit_loop 2 python2 counter_rng (Fin 2) (PyInt 4) demo_X [] 0 = Some (Inr (demo_trees, 10))"
  by code_simp

lemma demo_fit: "fit python2 counter_rng demo_forest_init demo_X 0 = Some (demo_forest, Inr 10)"
proof -
  have p: "fit_psi demo_forest_init demo_X = PyInt 4"
    using round64_int[of 4]
    by (simp add: fit_psi_def demo_forest_init_def IForest_init_def demo_X_def)
  have h: "fit_height_limit demo_forest_init (PyInt 4) = Fin 2"
    using log2_4 by (simp add: fit_height_limit_def demo_forest_init_def IForest_init_def)
  have n: "nat (num_trees demo_forest_init) = 2"
    by (simp add: demo_forest_init_def IForest_init_def)
  show ?thesis
    unfolding fit_def Let_def p h n demo_fit_loop
    by (simp add: demo_forest_init_def IForest_init_def demo_forest_def)
qed








text \<open>
  Claim C4, as amended: the subsample size that \<open>fit\<close> resolves and stores. For a dataset
  of \<open>m\<close> rows, a configured \<open>subsample_size \<le> 1.0\<close> gives the ceiling of the float64
  product \<open>subsample_size * m\<close>, that is of the exact product rounded to the nearest
  float64, as an int; a larger \<open>subsample_size\<close> is stored as it is, int or float, with
  no check and no conversion. So \<open>0.25\<close> with \<open>m = 100\<close> gives 25, and the int 10 gives
  10 for every \<open>m\<close>. The array has fewer than \<open>2 ^ 53\<close> rows and the product stays in
  the float64 range.
\<close>

theorem psi_resolution:
  assumes "fit E G F X s = Some (F', Inr s')"
    and "length (rows X) < 2 ^ 53"
    and "\<bar>num_val (subsample_size F) * real (length (rows X))\<bar> < 2 ^ 1023"
  shows "psi F' =
      Some (if num_val (subsample_size F) \<le> 1
            then PyInt \<lceil>round64 (num_val (subsample_size F) * real (length (rows X)))\<rceil>
            else subsample_size F)
    \<and> (subsample_size F = PyFloat (1 / 4) \<and> length (rows X) = 100 \<longrightarrow> psi F' = Some (PyInt 25))
    \<and> (subsample_size F = PyInt 10 \<longrightarrow> psi F' = Some (PyInt 10))"
proof -
  from fit_trees_ok[OF assms(1)] have p: "psi F' = Some (fit_psi F X)" by simp
  have a: "fit_psi F X =
      (if num_val (subsample_size F) \<le> 1
       then PyInt \<lceil>round64 (num_val (subsample_size F) * real (length (rows X)))\<rceil>
       else subsample_size F)"
    by (simp add: fit_psi_def)
  have b: "subsample_size F = PyFloat (1 / 4) \<and> length (rows X) = 100 \<longrightarrow> fit_psi F X = PyInt 25"
    using round64_int[of 25] by (simp add: fit_psi_def)
  have c: "subsample_size F = PyInt 10 \<longrightarrow> fit_psi F X = PyInt 10"
    by (simp add: fit_psi_def)
  from p a b c show ?thesis by simp
qed

lemma float_fit_loop:
  "fit_loop 2 python2 counter_rng (Fin 2) (PyFloat (5 / 2)) demo_X [] 0
     = Some (Inr ([\<lparr>tree_height_limit = Fin 2,
                    root = Some (ITreeNode 1 5 (ITreeLeaf 0)
                             (ITreeNode 1 5 (ITreeLeaf 0) (ITreeLeaf 2)))\<rparr>,
                   \<lparr>tree_height_limit = Fin 2,
                    root = Some (ITreeNode 0 6 (ITreeLeaf 1) (ITreeLeaf 1))\<rparr>], 8))"
  by code_simp

lemma float_fit:
  "\<exists>F'. fit python2 counter_rng (IForest_init 2 (PyFloat (5 / 2)) (Some (Fin 2))) demo_X 0
          = Some (F', Inr 8)"
proof -
  have p: "fit_psi (IForest_init 2 (PyFloat (5 / 2)) (Some (Fin 2))) demo_X = PyFloat (5 / 2)"
    by (simp add: fit_psi_def IForest_init_def)
  have h: "fit_height_limit (IForest_init 2 (PyFloat (5 / 2)) (Some (Fin 2))) (PyFloat (5 / 2)) = Fin 2"
    by (simp add: fit_height_limit_def IForest_init_def)
  have n: "nat (num_trees (IForest_init 2 (PyFloat (5 / 2)) (Some (Fin 2)))) = 2"
    by (simp add: IForest_init_def)
  show ?thesis
    unfolding fit_def Let_def p h n float_fit_loop by simp
qed

lemma fit_height_limit_set:
  assumes "fit E G F X s = Some (F', out)"
  shows "height_limit F' = Some (fit_height_limit F (fit_psi F X))"
  using assms
  by (auto simp: fit_def Let_def split: option.splits sum.splits)

lemma fit_keeps_height_limit:
  assumes "height_limit F = Some h" "fit E G F X s = Some (F', out)"
  shows "height_limit F' = Some h"
  using fit_height_limit_set[OF assms(2)] assms(1) by (simp add: fit_height_limit_def)

lemma later_fit_keeps_height_limit:
  assumes "later_fit E G F F'" "height_limit F = Some h"
  shows "height_limit F' = Some h"
  using assms
proof (induction rule: later_fit.induct)
  case (later_same F)
  then show ?case by simp
next
  case (later_step F F' X s F'' out)
  from fit_keeps_height_limit[OF later_step.IH[OF later_step.prems] later_step.hyps(2)]
  show ?case .
qed

text \<open>
  Claim C9: with \<^verbatim>\<open>height_limit\<close> unset at construction, the first \<open>fit\<close> stores
  \<open>ceil(log2(psi))\<close> of the \<open>psi\<close> it resolves, and every later \<open>fit\<close>, on whatever data,
  leaves the stored value as it is. The assignment precedes the loop, so this holds also
  for a call that raises.
\<close>

theorem height_limit_cached:
  assumes "height_limit F = None" and "fit E G F X s = Some (F1, out)"
    and "later_fit E G F1 F'"
  shows "height_limit F1 = Some (np_ceil (np_log2 (num_val (fit_psi F X))))
    \<and> height_limit F' = height_limit F1"
proof -
  from fit_height_limit_set[OF assms(2)] assms(1)
  have h: "height_limit F1 = Some (np_ceil (np_log2 (num_val (fit_psi F X))))"
    by (simp add: fit_height_limit_def)
  from later_fit_keeps_height_limit[OF assms(3) h] h show ?thesis by simp
qed

lemma log2_2: "np_ceil (np_log2 2) = Fin 1"
  by (simp add: np_log2_def)

lemma demo_fit_loop2:
  "fit_loop 2 python2 counter_rng (Fin 2) (PyInt 2) demo_X2 [] 10
     = Some (Inr (trees demo_forest2, 18))"
  by code_simp

lemma demo_fit2: "fit python2 counter_rng demo_forest demo_X2 10 = Some (demo_forest2, Inr 18)"
proof -
  have p: "fit_psi demo_forest demo_X2 = PyInt 2"
    using round64_int[of 2]
    by (simp add: fit_psi_def demo_forest_def demo_X2_def)
  have h: "fit_height_limit demo_forest (PyInt 2) = Fin 2"
    by (simp add: fit_height_limit_def demo_forest_def)
  have n: "nat (num_trees demo_forest) = 2"
    by (simp add: demo_forest_def)
  show ?thesis
    unfolding fit_def Let_def p h n demo_fit_loop2
    by (simp add: demo_forest_def demo_forest2_def)
qed

theorem height_limit_cached_witness:
  "height_limit demo_forest_init = None
   \<and> fit python2 counter_rng demo_forest_init demo_X 0 = Some (demo_forest, Inr 10)
   \<and> fit python2 counter_rng demo_forest demo_X2 10 = Some (demo_forest2, Inr 18)
   \<and> height_limit demo_forest = Some (Fin 2)
   \<and> height_limit demo_forest2 = Some (Fin 2)
   \<and> psi demo_forest2 = Some (PyInt 2)
   \<and> np_ceil (np_log2 2) = Fin 1"
proof -
  have h1: "height_limit demo_forest_init = None"
    by (simp add: demo_forest_init_def IForest_init_def)
  have l: "later_fit python2 counter_rng demo_forest demo_forest2"
    by (rule later_step[OF later_same demo_fit2])
  from height_limit_cached[OF h1 demo_fit l] h1 demo_fit demo_fit2 log2_2
  show ?thesis by (simp add: demo_forest_def demo_forest2_def)
qed

lemma fit_loop_append:
  "fit_loop (j + k) E G h p X ts s =
     Option.bind (fit_loop j E G h p X ts s)
       (\<lambda>res. case res of
          Inl e \<Rightarrow> Some (Inl e)
        | Inr (ts', s') \<Rightarrow> fit_loop k E G h p X ts' s')"
proof (induction j arbitrary: ts s)
  case 0
  then show ?case by simp
next
  case (Suc j)
  show ?case
    by (auto simp: Suc.IH split: prod.splits sum.splits Option.bind_splits)
qed


lemma tenth_product:
  "round64 (3602879701896397 / 36028797018963968 * 10) = 1"
proof -
  have "round64 (3602879701896397 / 36028797018963968 * 10)
      = of_int (rne ((3602879701896397 / 36028797018963968 * 10) / pow2 (0 - 52))) * pow2 (0 - 52)"
    by (rule round64_eval) (simp_all add: pow2_def)
  also have "rne ((3602879701896397 / 36028797018963968 * 10) / pow2 (0 - 52)) = 4503599627370496"
    by (rule rne_down) (simp_all add: pow2_def)
  finally show ?thesis by (simp add: pow2_def)
qed

lemma tenth_exact_ceiling:
  "\<lceil>3602879701896397 / 36028797018963968 * (10::real)\<rceil> = 2"
  by (simp add: ceiling_eq_iff)

lemma tenth_fit_loop:
  "fit_loop 1 python2 counter_rng (Fin 0) (PyInt 1) ten_X [] 0
     = Some (Inr ([\<lparr>tree_height_limit = Fin 0, root = Some (ITreeLeaf 1)\<rparr>], 1))"
  by code_simp

lemma tenth_fit: "fit python2 counter_rng tenth_forest_init ten_X 0 = Some (tenth_forest, Inr 1)"
proof -
  have p: "fit_psi tenth_forest_init ten_X = PyInt 1"
    using tenth_product
    by (simp add: fit_psi_def tenth_forest_init_def IForest_init_def ten_X_def)
  have h: "fit_height_limit tenth_forest_init (PyInt 1) = Fin 0"
    using log2_1 by (simp add: fit_height_limit_def tenth_forest_init_def IForest_init_def)
  have n: "nat (num_trees tenth_forest_init) = 1"
    by (simp add: tenth_forest_init_def IForest_init_def)
  show ?thesis
    unfolding fit_def Let_def p h n tenth_fit_loop
    by (simp add: tenth_forest_init_def IForest_init_def tenth_forest_def)
qed

theorem psi_resolution_witness:
  "fit python2 counter_rng tenth_forest_init ten_X 0 = Some (tenth_forest, Inr 1)
   \<and> length (rows ten_X) = 10
   \<and> round64 (num_val (subsample_size tenth_forest_init) * real (length (rows ten_X))) = 1
   \<and> psi tenth_forest = Some (PyInt 1)
   \<and> (\<exists>F'. fit python2 counter_rng (IForest_init 2 (PyFloat (5 / 2)) (Some (Fin 2))) demo_X 0
              = Some (F', Inr 8)
            \<and> psi F' = Some (PyFloat (5 / 2)))"
proof -
  have m: "length (rows ten_X) = 10" by (simp add: ten_X_def)
  have r: "round64 (num_val (subsample_size tenth_forest_init) * real (length (rows ten_X))) = 1"
    using tenth_product by (simp add: tenth_forest_init_def IForest_init_def ten_X_def)
  have h2: "length (rows ten_X) < 2 ^ 53" by (simp add: ten_X_def)
  have h3: "\<bar>num_val (subsample_size tenth_forest_init) * real (length (rows ten_X))\<bar> < 2 ^ 1023"
    by (simp add: tenth_forest_init_def IForest_init_def ten_X_def)
  from psi_resolution[OF tenth_fit h2 h3] r
  have p1: "psi tenth_forest = Some (PyInt 1)"
    by (simp add: tenth_forest_init_def IForest_init_def)
  from float_fit obtain F' where
    f: "fit python2 counter_rng (IForest_init 2 (PyFloat (5 / 2)) (Some (Fin 2))) demo_X 0
          = Some (F', Inr 8)" by blast
  have g2: "length (rows demo_X) < 2 ^ 53" by (simp add: demo_X_def)
  have g3: "\<bar>num_val (subsample_size (IForest_init 2 (PyFloat (5 / 2)) (Some (Fin 2))))
              * real (length (rows demo_X))\<bar> < 2 ^ 1023"
    by (simp add: IForest_init_def demo_X_def)
  from psi_resolution[OF f g2 g3] have "psi F' = Some (PyFloat (5 / 2))"
    by (simp add: IForest_init_def)
  with f have e: "\<exists>F'. fit python2 counter_rng (IForest_init 2 (PyFloat (5 / 2)) (Some (Fin 2))) demo_X 0
              = Some (F', Inr 8) \<and> psi F' = Some (PyFloat (5 / 2))" by blast
  from tenth_fit m r p1 e show ?thesis by simp
qed

lemma tree_term_true_division:
  "true_division E \<Longrightarrow> tree_term E T x = ref_term T x"
  by (auto simp: tree_term_def ref_term_def adjustment_true_division split: sum.splits)

lemma code_score_true_division:
  "true_division E \<Longrightarrow> code_score E F (PyInt (int k)) x = ref_score F k x"
  by (simp add: code_score_def ref_score_def tree_term_true_division adjustment_true_division)

text \<open>Under true division the score that \<open>predict\<close> returns is the score of the
  specification, for every fitted forest with an int \<open>psi \<ge> 2\<close> and at least one tree.\<close>

lemma predict_true_division:
  assumes "true_division E" and "fit E G F0 X_train s = Some (F, Inr s')"
    and "psi F = Some (PyInt (int k))" and "2 \<le> k" and "trees F \<noteq> []"
    and "list_all (\<lambda>x. ncols X_train \<le> length x) (rows X)"
  shows "predict E F X = Inr (map (\<lambda>x. Fin (ref_score F k x)) (rows X))
    \<and> list_all (\<lambda>x. 0 < ref_score F k x \<and> ref_score F k x \<le> 1) (rows X)"
proof -
  have "2 \<le> num_val (PyInt (int k))" using assms(4) by simp
  from predict_closed_form[OF assms(2,3) this assms(5,6)] show ?thesis
    by (simp add: code_score_true_division[OF assms(1)])
qed

lemma demo_query_1: "path_length_and_leaf_size (demo_trees ! 0) [1, 5] = Inr (2, 4)"
  by (simp add: demo_trees_def path_length_and_leaf_size_def)

lemma demo_query_2: "path_length_and_leaf_size (demo_trees ! 1) [1, 5] = Inr (2, 2)"
  by (simp add: demo_trees_def path_length_and_leaf_size_def)

lemma adjustment_python2_4: "adjustment python2 (PyInt 4) = 2 * (ln 3 + euler_gamma) - 1"
  by (simp add: adjustment.simps python2_def)

lemma c_ref_4: "c_ref 4 = 2 * (ln 3 + euler_gamma) - 3 / 2"
  by (simp add: c_ref_def)

lemma c_ref_4_pos: "0 < 2 * (ln 3 + euler_gamma) - 3 / (2::real)"
proof -
  have "0 < adjustment python3 (PyInt (int 4))" by (rule adjustment_pos) simp
  moreover have "adjustment python3 (PyInt (int 4)) = c_ref 4"
    by (rule adjustment_true_division) (simp add: python3_def)
  ultimately show ?thesis unfolding c_ref_4 by simp
qed

lemma demo_code_sum:
  "(\<Sum>T\<leftarrow>trees demo_forest. tree_term python2 T [1, 5]) = 5 + (2 * (ln 3 + euler_gamma) - 1)"
proof -
  have t: "trees demo_forest = [demo_trees ! 0, demo_trees ! 1]"
    by (simp add: demo_forest_def demo_trees_def)
  have a2: "adjustment python2 (PyInt 2) = 1" by (simp add: adjustment.simps)
  show ?thesis
    unfolding t using demo_query_1 demo_query_2 adjustment_python2_4 a2
    by (simp add: tree_term_def)
qed

lemma demo_ref_sum:
  "(\<Sum>T\<leftarrow>trees demo_forest. ref_term T [1, 5]) = 5 + (2 * (ln 3 + euler_gamma) - 3 / 2)"
proof -
  have t: "trees demo_forest = [demo_trees ! 0, demo_trees ! 1]"
    by (simp add: demo_forest_def demo_trees_def)
  have a2: "c_ref 2 = 1" by (simp add: c_ref_def)
  show ?thesis
    unfolding t using demo_query_1 demo_query_2 c_ref_4 a2
    by (simp add: ref_term_def)
qed

lemma score_exponent_differs:
  fixes c :: real
  assumes "0 < c"
  shows "2 powr (- ((5 + (c + 1 / 2)) / 2) / (c + 1 / 2)) \<noteq> 2 powr (- ((5 + c) / 2) / c)"
proof
  assume "2 powr (- ((5 + (c + 1 / 2)) / 2) / (c + 1 / 2)) = 2 powr (- ((5 + c) / 2) / c)"
  then have "- ((5 + (c + 1 / 2)) / 2) / (c + 1 / 2) = - ((5 + c) / 2) / c"
    by (simp add: powr_inj)
  then have "(5 + (c + 1 / 2)) * c = (5 + c) * (c + 1 / 2)"
    using assms by (simp add: field_simps)
  then show False by (simp add: algebra_simps)
qed

lemma demo_predict:
  "predict python2 demo_forest demo_query
     = Inr [Fin (2 powr (- ((5 + (2 * (ln 3 + euler_gamma) - 1)) / 2)
                          / (2 * (ln 3 + euler_gamma) - 1)))]"
proof -
  have h2: "psi demo_forest = Some (PyInt 4)" by (simp add: demo_forest_def)
  have h3: "2 \<le> num_val (PyInt 4)" by simp
  have h4: "trees demo_forest \<noteq> []" by (simp add: demo_forest_def demo_trees_def)
  have h5: "list_all (\<lambda>x. ncols demo_X \<le> length x) (rows demo_query)"
    by (simp add: demo_X_def demo_query_def)
  have n: "num_trees demo_forest = 2" by (simp add: demo_forest_def)
  from predict_closed_form[OF demo_fit h2 h3 h4 h5]
  have "predict python2 demo_forest demo_query
          = Inr [Fin (code_score python2 demo_forest (PyInt 4) [1, 5])]"
    by (simp add: demo_query_def)
  then show ?thesis
    unfolding code_score_def demo_code_sum adjustment_python2_4 n by simp
qed

lemma demo_ref_score:
  "ref_score demo_forest 4 [1, 5]
     = 2 powr (- ((5 + (2 * (ln 3 + euler_gamma) - 3 / 2)) / 2)
                / (2 * (ln 3 + euler_gamma) - 3 / 2))"
proof -
  have n: "num_trees demo_forest = 2" by (simp add: demo_forest_def)
  show ?thesis unfolding ref_score_def demo_ref_sum c_ref_4 n by simp
qed

text \<open>
  Claim C1: for a forest fitted with \<open>psi \<ge> 2\<close> and at least one tree, the score of a row
  is \<open>2 ^ (- ((sum over the trees of path_length + c(leaf_size)) / num_trees) / c(psi))\<close>
  and lies in \<open>(0, 1]\<close>. \<open>predict\<close> returns this score with \<^verbatim>\<open>_adjustment\<close> in the place of
  \<open>c\<close> (\<open>predict_closed_form\<close>), and it lies in \<open>(0, 1]\<close>. Under true division
  \<^verbatim>\<open>_adjustment\<close> is \<open>c\<close> and the claim holds (\<open>predict_true_division\<close>). Under the floor
  division of Python 2 it is not: the forest fitted on the four rows of \<open>demo_X\<close> has
  \<open>psi = 4\<close> and two trees, the row \<open>[1, 5]\<close> reaches a leaf of size 4 and a leaf of size
  2, both at depth 2, and \<open>predict\<close> returns \<open>2 ^ (- ((5 + c') / 2) / c')\<close> with
  \<open>c' = 2 (ln 3 + \<gamma>) - 1\<close>, where the claim has \<open>c(4) = 2 (ln 3 + \<gamma>) - 3/2\<close>.
\<close>

theorem predict_python2_differs:
  "fit python2 counter_rng demo_forest_init demo_X 0 = Some (demo_forest, Inr 10)
   \<and> psi demo_forest = Some (PyInt 4)
   \<and> predict python2 demo_forest demo_query
       = Inr [Fin (2 powr (- ((5 + (2 * (ln 3 + euler_gamma) - 1)) / 2)
                            / (2 * (ln 3 + euler_gamma) - 1)))]
   \<and> ref_score demo_forest 4 [1, 5]
       = 2 powr (- ((5 + (2 * (ln 3 + euler_gamma) - 3 / 2)) / 2)
                  / (2 * (ln 3 + euler_gamma) - 3 / 2))
   \<and> predict python2 demo_forest demo_query
       \<noteq> Inr (map (\<lambda>x. Fin (ref_score demo_forest 4 x)) (rows demo_query))"
proof -
  have h2: "psi demo_forest = Some (PyInt 4)" by (simp add: demo_forest_def)
  define c where "c = 2 * (ln 3 + euler_gamma) - 3 / (2::real)"
  have c: "0 < c" unfolding c_def by (rule c_ref_4_pos)
  have e: "2 * (ln 3 + euler_gamma) - 1 = c + 1 / 2" by (simp add: c_def)
  have ne: "2 powr (- ((5 + (2 * (ln 3 + euler_gamma) - 1)) / 2) / (2 * (ln 3 + euler_gamma) - 1))
             \<noteq> 2 powr (- ((5 + (2 * (ln 3 + euler_gamma) - 3 / 2)) / 2)
                          / (2 * (ln 3 + euler_gamma) - 3 / 2))"
    unfolding e using score_exponent_differs[OF c] by (simp add: c_def)
  have d: "predict python2 demo_forest demo_query
             \<noteq> Inr (map (\<lambda>x. Fin (ref_score demo_forest 4 x)) (rows demo_query))"
    unfolding demo_predict using ne by (simp add: demo_query_def demo_ref_score)
  from demo_fit h2 demo_predict demo_ref_score d show ?thesis by blast
qed



lemma demo_fit_loop_from_1:
  "fit_loop 2 python2 counter_rng (Fin 2) (PyInt 4) demo_X [] 1
     = Some (Inr (rev demo_trees, 11))"
  by code_simp

text \<open>With \<^verbatim>\<open>random_state\<close> unset, the state of the global generator decides the trees:
  from another state, \<open>fit\<close> on the same data builds other trees.\<close>

lemma unseeded_runs_differ:
  "fit_call python2 counter_rng nat 0 RS_None demo_forest_init demo_X
     = Some (demo_forest, Inr 10)
   \<and> fit_call python2 counter_rng nat 1 RS_None demo_forest_init demo_X
     = Some (demo_forest\<lparr>trees := rev demo_trees\<rparr>, Inr 11)
   \<and> rev demo_trees \<noteq> demo_trees"
proof -
  have p: "fit_psi demo_forest_init demo_X = PyInt 4"
    using round64_int[of 4]
    by (simp add: fit_psi_def demo_forest_init_def IForest_init_def demo_X_def)
  have h: "fit_height_limit demo_forest_init (PyInt 4) = Fin 2"
    using log2_4 by (simp add: fit_height_limit_def demo_forest_init_def IForest_init_def)
  have n: "nat (num_trees demo_forest_init) = 2"
    by (simp add: demo_forest_init_def IForest_init_def)
  have "fit python2 counter_rng demo_forest_init demo_X 1
          = Some (demo_forest\<lparr>trees := rev demo_trees\<rparr>, Inr 11)"
    unfolding fit_def Let_def p h n demo_fit_loop_from_1
    by (simp add: demo_forest_init_def IForest_init_def demo_forest_def)
  moreover have "rev demo_trees \<noteq> demo_trees" by (simp add: demo_trees_def)
  ultimately show ?thesis
    using demo_fit by (simp add: fit_call_def maybe_default_random_state_def)
qed

section \<open>Properties of tree construction in float64 arithmetic\<close>

lemma grow64_leaf:
  "height_reached d h \<or> length (rows X) \<le> 1 \<Longrightarrow>
   grow64 G X d h s = Some (Inr (ITreeLeaf64 (length (rows X)), s))"
  by (subst grow64.simps) simp

lemma grow64_ITreeLeaf64D:
  assumes "grow64 G X d h s = Some (Inr (ITreeLeaf64 k, s'))"
  shows "(height_reached d h \<or> length (rows X) \<le> 1) \<and> k = length (rows X) \<and> s' = s"
  using assms
  by (subst (asm) grow64.simps)
     (auto simp: Let_def split: if_splits prod.splits sum.splits Option.bind_splits)

lemma grow64_ITreeNode64D:
  assumes "grow64 G X d h s = Some (Inr (ITreeNode64 att v l r, s'))"
  shows "\<not> height_reached d h \<and> 2 \<le> length (rows X) \<and> att < ncols X \<and>
    (\<exists>s1 u s2 s3.
       randint G (ncols X) s = (att, s1) \<and> random_sample G s1 = (u, s2) \<and>
       v = split_value64 (py_min (column X att)) (py_max (column X att)) u \<and>
       grow64 G (select_rows (\<lambda>r. f64_less (r ! att) v) X) (d + 1) h s2 = Some (Inr (l, s3)) \<and>
       grow64 G (select_rows (\<lambda>r. f64_ge (r ! att) v) X) (d + 1) h s3 = Some (Inr (r, s')))"
  using assms
  by (subst (asm) grow64.simps)
     (auto simp: Let_def split: if_splits prod.splits sum.splits Option.bind_splits)

lemma grow64_node:
  assumes "\<not> height_reached d h" "2 \<le> length (rows X)" "att < ncols X"
    and "randint G (ncols X) s = (att, s1)" "random_sample G s1 = (u, s2)"
    and "v = split_value64 (py_min (column X att)) (py_max (column X att)) u"
    and "grow64 G (select_rows (\<lambda>r. f64_less (r ! att) v) X) (d + 1) h s2 = Some (Inr (l, s3))"
    and "grow64 G (select_rows (\<lambda>r. f64_ge (r ! att) v) X) (d + 1) h s3 = Some (Inr (r, s4))"
  shows "grow64 G X d h s = Some (Inr (ITreeNode64 att v l r, s4))"
  using assms by (subst grow64.simps) (simp add: Let_def)

lemma grow64_returns_Fin: "\<exists>res. grow64 G X d (Fin r) s = Some res"
proof (induction k \<equiv> "nat \<lceil>r\<rceil> - d" arbitrary: d X s)
  case 0
  then have "r \<le> real d" by linarith
  then show ?case by (simp add: grow64_leaf)
next
  case (Suc k)
  show ?case
  proof (cases "height_reached d (Fin r) \<or> length (rows X) \<le> 1")
    case True
    then show ?thesis by (simp add: grow64_leaf)
  next
    case False
    have k: "k = nat \<lceil>r\<rceil> - (d + 1)" using Suc.hyps(2) by simp
    obtain att s1 where a: "randint G (ncols X) s = (att, s1)" by force
    obtain u s2 where u: "random_sample G s1 = (u, s2)" by force
    define v where "v = split_value64 (py_min (column X att)) (py_max (column X att)) u"
    obtain resl where
      l: "grow64 G (select_rows (\<lambda>r. f64_less (r ! att) v) X) (d + 1) (Fin r) s2 = Some resl"
      using Suc.hyps(1)[OF k] by blast
    show ?thesis
    proof (cases resl)
      case (Inl e)
      then show ?thesis using False a u l
        by (subst grow64.simps) (simp add: Let_def v_def)
    next
      case (Inr p)
      obtain lt s3 where p: "p = (lt, s3)" by force
      obtain resr where
        r: "grow64 G (select_rows (\<lambda>r. f64_ge (r ! att) v) X) (d + 1) (Fin r) s3 = Some resr"
        using Suc.hyps(1)[OF k] by blast
      show ?thesis using False a u l Inr p r
        by (subst grow64.simps) (auto simp add: Let_def v_def split: sum.splits)
    qed
  qed
qed

lemma grow64_no_raise_aux:
  assumes g: "grow64 G X d h s = Some y"
  shows "randint_ok G \<longrightarrow> 0 < ncols X \<longrightarrow> (\<exists>t s'. y = Inr (t, s'))"
  apply (rule grow64.raw_induct
    [where P = "\<lambda>G X d h s y. randint_ok G \<longrightarrow> 0 < ncols X \<longrightarrow> (\<exists>t s'. y = Inr (t, s'))",
     OF _ g])
  subgoal premises prems for grw G X d h s y
  proof (intro impI)
    note IH = prems(1) and body = prems(2)
    assume ok: "randint_ok G" and n: "0 < ncols X"
    obtain att s1 where a: "randint G (ncols X) s = (att, s1)" by force
    from ok n have "fst (randint G (ncols X) s) < ncols X"
      unfolding randint_ok_def by blast
    with a have an: "att < ncols X" by simp
    obtain u s2 where u: "random_sample G s1 = (u, s2)" by force
    show "\<exists>t s'. y = Inr (t, s')"
    proof (cases "height_reached d h \<or> length (rows X) \<le> 1")
      case True
      with body show ?thesis by auto
    next
      case False
      define v where "v = split_value64 (py_min (column X att)) (py_max (column X att)) u"
      from body False a an u obtain rl where
        l: "grw G (select_rows (\<lambda>r. f64_less (r ! att) v) X) (d + 1) h s2 = Some rl"
        by (auto simp: Let_def v_def split: if_splits Option.bind_splits)
      from IH[OF l] ok n obtain lt s3 where rl: "rl = Inr (lt, s3)"
        by (auto simp: select_rows_def)
      from body False a an u l rl obtain rr where
        r: "grw G (select_rows (\<lambda>r. f64_ge (r ! att) v) X) (d + 1) h s3 = Some rr"
        by (auto simp: Let_def v_def split: if_splits Option.bind_splits)
      from IH[OF r] ok n obtain rt s4 where rr: "rr = Inr (rt, s4)"
        by (auto simp: select_rows_def)
      from body False a an u l rl r rr show ?thesis
        by (auto simp: Let_def v_def split: if_splits)
    qed
  qed
  done

lemma grow64_returns_tree:
  assumes "randint_ok G" "0 < ncols X"
  shows "\<exists>t s'. grow64 G X d (Fin r) s = Some (Inr (t, s'))"
proof -
  from grow64_returns_Fin[of G X d r s] obtain y where y: "grow64 G X d (Fin r) s = Some y"
    by blast
  from grow64_no_raise_aux[OF y] assms y show ?thesis by blast
qed

lemma grow64_draws_sound:
  assumes "grow64 G X d h s = Some (Inr (t, s'))"
  shows "grow_draws G X d h t s s'"
  using assms
proof (induction t arbitrary: X d s s')
  case (ITreeLeaf64 k)
  from grow64_ITreeLeaf64D[OF this] show ?case by (auto intro: draws_leaf)
next
  case (ITreeNode64 att v l r)
  from grow64_ITreeNode64D[OF ITreeNode64.prems] obtain s1 u s2 s3 where
    nr: "\<not> height_reached d h" and m: "2 \<le> length (rows X)" and a: "att < ncols X" and
    ri: "randint G (ncols X) s = (att, s1)" and
    u: "random_sample G s1 = (u, s2)" and
    v: "v = split_value64 (py_min (column X att)) (py_max (column X att)) u" and
    gl: "grow64 G (select_rows (\<lambda>r. f64_less (r ! att) v) X) (d + 1) h s2 = Some (Inr (l, s3))" and
    gr: "grow64 G (select_rows (\<lambda>r. f64_ge (r ! att) v) X) (d + 1) h s3 = Some (Inr (r, s'))"
    by blast
  have ne: "column X att \<noteq> []" using m by (auto simp: column_def)
  have v': "v = split_value64 (Min (set (column X att))) (Max (set (column X att))) u"
    unfolding v py_min_Min[OF ne] py_max_Max[OF ne] ..
  show ?case
    by (rule draws_internal[OF _ ri a refl refl u v' ITreeNode64.IH(1)[OF gl] ITreeNode64.IH(2)[OF gr]])
       (use nr m in simp)
qed

lemma grow64_draws_complete:
  assumes "grow_draws G X d h t s s'"
  shows "grow64 G X d h s = Some (Inr (t, s'))"
  using assms
proof (induction rule: grow_draws.induct)
  case (draws_leaf depth limit X s)
  then show ?case by (rule grow64_leaf)
next
  case (draws_internal depth limit X s feature s1 a b u s2 threshold l s3 r s4)
  have nr: "\<not> height_reached depth limit" and m: "2 \<le> length (rows X)"
    using draws_internal.hyps(1) by auto
  have ne: "column X feature \<noteq> []" using m by (auto simp: column_def)
  have v: "threshold = split_value64 (py_min (column X feature)) (py_max (column X feature)) u"
    unfolding py_min_Min[OF ne] py_max_Max[OF ne]
    using draws_internal.hyps(4,5,7) by simp
  show ?case
    by (rule grow64_node[OF nr m draws_internal.hyps(3) draws_internal.hyps(2)
          draws_internal.hyps(6) v draws_internal.IH(1) draws_internal.IH(2)])
qed

lemma fl64_Fin: "round64 x = r \<Longrightarrow> \<bar>r\<bar> < 2 ^ 1024 \<Longrightarrow> fl64 x = Fin r"
  by (simp add: fl64_def Let_def)

lemma edge_difference: "fl64 (2 - 1) = Fin 1"
proof -
  have "round64 (of_int 1) = of_int 1" by (rule round64_int) simp
  then have "round64 (2 - 1) = 1" by simp
  then show ?thesis by (rule fl64_Fin) simp
qed

lemma edge_product:
  "fl64 (1 * (9007199254740991 / 9007199254740992))
     = Fin (9007199254740991 / 9007199254740992)"
proof -
  have "round64 (of_int 9007199254740991 * pow2 (- 53)) = of_int 9007199254740991 * pow2 (- 53)"
    by (rule round64_exact) simp_all
  then have "round64 (1 * (9007199254740991 / 9007199254740992))
               = 9007199254740991 / 9007199254740992"
    by (simp add: pow2_def)
  then show ?thesis by (rule fl64_Fin) simp
qed

lemma edge_sum:
  "fl64 (1 + 9007199254740991 / 9007199254740992) = Fin 2"
proof -
  have "round64 (1 + 9007199254740991 / 9007199254740992)
      = of_int (rne ((1 + 9007199254740991 / 9007199254740992) / pow2 (0 - 52))) * pow2 (0 - 52)"
    by (rule round64_eval) (simp_all add: pow2_def)
  also have "rne ((1 + 9007199254740991 / 9007199254740992) / pow2 (0 - 52))
      = (if even (9007199254740991::int) then 9007199254740991 else 9007199254740991 + 1)"
    by (rule rne_tie) (simp add: pow2_def)
  finally have "round64 (1 + 9007199254740991 / 9007199254740992) = 2"
    by (simp add: pow2_def)
  then show ?thesis by (rule fl64_Fin) simp
qed

lemma edge_split_value:
  "split_value64 1 2 (9007199254740991 / 9007199254740992) = Fin 2"
  unfolding split_value64_def edge_difference f64_mul.simps edge_product f64_add.simps edge_sum ..

lemma edge_grow:
  "grow64 edge_rng edge_X 0 (Fin 1) 0 = Some (Inr (edge_root, 2))"
proof -
  have col: "column edge_X 0 = [1, 2]" by (simp add: column_def edge_X_def)
  have v: "Fin 2 = split_value64 (py_min (column edge_X 0)) (py_max (column edge_X 0))
                     (9007199254740991 / 9007199254740992)"
    unfolding col using edge_split_value by (simp add: py_min_def py_max_def)
  have l: "grow64 edge_rng (select_rows (\<lambda>r. f64_less (r ! 0) (Fin 2)) edge_X) (0 + 1) (Fin 1) 2
             = Some (Inr (ITreeLeaf64 1, 2))"
    using grow64_leaf[of "0 + 1" "Fin 1" "select_rows (\<lambda>r. f64_less (r ! 0) (Fin 2)) edge_X" edge_rng 2]
    by (simp add: select_rows_def edge_X_def)
  have r: "grow64 edge_rng (select_rows (\<lambda>r. f64_ge (r ! 0) (Fin 2)) edge_X) (0 + 1) (Fin 1) 2
             = Some (Inr (ITreeLeaf64 1, 2))"
    using grow64_leaf[of "0 + 1" "Fin 1" "select_rows (\<lambda>r. f64_ge (r ! 0) (Fin 2)) edge_X" edge_rng 2]
    by (simp add: select_rows_def edge_X_def)
  have "grow64 edge_rng edge_X 0 (Fin 1) 0
          = Some (Inr (ITreeNode64 0 (Fin 2) (ITreeLeaf64 1) (ITreeLeaf64 1), 2))"
    by (rule grow64_node[where ?s1.0 = 1 and ?s2.0 = 2 and ?s3.0 = 2
          and u = "9007199254740991 / 9007199254740992", OF _ _ _ _ _ v l r])
       (simp_all add: edge_X_def edge_rng_def)
  then show ?thesis by (simp add: edge_root_def)
qed

lemma edge_sample_ok: "sample_ok edge_rng"
  by (simp add: sample_ok_def edge_rng_def)

lemma edge_randint_ok: "randint_ok edge_rng"
  by (simp add: randint_ok_def edge_rng_def)

lemma edge_not_spec: "\<not> grow_spec edge_X 0 (Fin 1) edge_root"
proof
  assume "grow_spec edge_X 0 (Fin 1) edge_root"
  then have "grow_spec edge_X 0 (Fin 1) (ITreeNode64 0 (Fin 2) (ITreeLeaf64 1) (ITreeLeaf64 1))"
    by (simp add: edge_root_def)
  then show False
  proof (cases rule: grow_spec.cases)
    case (spec_internal a b)
    have col: "column edge_X 0 = [1, 2]" by (simp add: column_def edge_X_def)
    from spec_internal(3,4) col have "a = 1" "b = 2" by simp_all
    with spec_internal(5,6) show False by simp
  qed
qed

lemma fl64_half:
  assumes "\<bar>k\<bar> < 2 ^ 53"
  shows "fl64 (of_int k / 2) = Fin (of_int k / 2)"
proof -
  have "round64 (of_int k * pow2 (- 1)) = of_int k * pow2 (- 1)"
    by (rule round64_exact) (use assms in simp_all)
  then have r: "round64 (of_int k / 2) = of_int k / 2" by (simp add: pow2_def)
  have "\<bar>real_of_int k\<bar> < 2 ^ 53" using assms by (metis of_int_abs of_int_less_numeral_power_cancel_iff)
  then have "\<bar>real_of_int k / 2\<bar> < 2 ^ 1024" by simp
  with r show ?thesis by (rule fl64_Fin)
qed

lemma fl64_zero: "fl64 0 = Fin 0"
  by (simp add: fl64_def round64_def)

lemma split_value64_constant:
  assumes "fl64 a = Fin a"
  shows "split_value64 a a u = Fin a"
  using assms by (simp add: split_value64_def fl64_zero)

lemma demo_split_1: "split_value64 1 8 (1 / 2) = Fin (9 / 2)"
proof -
  have a: "fl64 (8 - 1) = Fin 7" using fl64_half[of 14] by simp
  have b: "fl64 (7 * (1 / 2)) = Fin (7 / 2)" using fl64_half[of 7] by simp
  have c: "fl64 (1 + 7 / 2) = Fin (9 / 2)" using fl64_half[of 9] by simp
  show ?thesis
    unfolding split_value64_def a f64_mul.simps b f64_add.simps c ..
qed

lemma demo_split_2: "split_value64 1 4 (1 / 2) = Fin (5 / 2)"
proof -
  have a: "fl64 (4 - 1) = Fin 3" using fl64_half[of 6] by simp
  have b: "fl64 (3 * (1 / 2)) = Fin (3 / 2)" using fl64_half[of 3] by simp
  have c: "fl64 (1 + 3 / 2) = Fin (5 / 2)" using fl64_half[of 5] by simp
  show ?thesis
    unfolding split_value64_def a f64_mul.simps b f64_add.simps c ..
qed

lemma demo_split_3: "split_value64 1 2 (1 / 2) = Fin (3 / 2)"
proof -
  have a: "fl64 (2 - 1) = Fin 1" by (rule edge_difference)
  have b: "fl64 (1 * (1 / 2)) = Fin (1 / 2)" using fl64_half[of 1] by simp
  have c: "fl64 (1 + 1 / 2) = Fin (3 / 2)" using fl64_half[of 3] by simp
  show ?thesis
    unfolding split_value64_def a f64_mul.simps b f64_add.simps c ..
qed

lemma demo_root64_grow:
  "grow64 counter_rng demo_X 0 (Fin 3) 0 = Some (Inr (demo_root64, 6))"
  apply (subst grow64.simps)
  apply (simp add: Let_def demo_X_def counter_rng_def column_def select_rows_def
      py_min_def py_max_def demo_split_1 demo_root64_def)
  apply (subst grow64.simps)
  apply (simp add: Let_def column_def select_rows_def py_min_def py_max_def demo_split_2)
  apply (subst grow64.simps)
  apply (simp add: Let_def column_def select_rows_def py_min_def py_max_def demo_split_3)
  apply (subst grow64.simps)
  apply (simp add: Let_def)
  apply (subst grow64.simps)
  apply (simp add: Let_def)
  apply (subst grow64.simps)
  apply (simp add: Let_def)
  apply (subst grow64.simps)
  apply (simp add: Let_def)
  done

text \<open>
  Claim C3, as stated, does not hold of the construction in float64 arithmetic. The
  generator's \<^verbatim>\<open>random_sample()\<close> can return \<open>1 - 2\<^sup>-\<^sup>5\<^sup>3\<close>, the largest double below 1. On
  the two rows \<open>[[1.0], [2.0]]\<close> the code then computes \<open>b - a = 1.0\<close>,
  \<open>1.0 * u = u\<close> and \<open>1.0 + u\<close>, whose exact value \<open>2 - 2\<^sup>-\<^sup>5\<^sup>3\<close> lies halfway between the
  doubles \<open>2 - 2\<^sup>-\<^sup>5\<^sup>2\<close> and \<open>2.0\<close> and rounds to the even one, \<open>2.0\<close>. The node built holds the
  threshold \<open>b = 2.0\<close>, which is not in \<open>[a, b)\<close>, although the draw is in \<open>[0, 1)\<close>.
\<close>

theorem grow_threshold_reaches_max:
  "grow64 edge_rng edge_X 0 (Fin 1) 0 = Some (Inr (edge_root, 2))
   \<and> edge_root = ITreeNode64 0 (Fin 2) (ITreeLeaf64 1) (ITreeLeaf64 1)
   \<and> Max (set (column edge_X 0)) = 2
   \<and> randint_ok edge_rng \<and> sample_ok edge_rng
   \<and> \<not> grow_spec edge_X 0 (Fin 1) edge_root"
proof -
  have "Max (set (column edge_X 0)) = 2" by (simp add: column_def edge_X_def)
  with edge_grow edge_randint_ok edge_sample_ok edge_not_spec show ?thesis
    by (simp add: edge_root_def)
qed

text \<open>
  Claim C3, as amended. Tree construction follows exactly this recursion: if the depth
  has reached the height limit or at most one row is left, the result is a leaf whose
  size is the row count and the generator is not used. Otherwise the feature is the
  generator's \<^verbatim>\<open>randint(n)\<close>, \<open>a\<close> and \<open>b\<close> are the minimum and the maximum of that feature
  over the current rows, the threshold is the float64 value of \<open>a + (b - a) * u\<close> for the
  generator's next \<^verbatim>\<open>random_sample()\<close> \<open>u\<close>, the rows are parted into those below the
  threshold and those at or above it, the left part is built at the next depth and then
  the right part, on the same generator, and the result is the internal node holding the
  feature, the threshold and the two children: a call returns a tree and a generator
  state exactly when \<open>grow_draws\<close> relates them. With a finite height limit, at least
  one column and \<^verbatim>\<open>randint\<close> in range, the call returns a tree. The threshold is \<open>a\<close>
  when \<open>a = b\<close> is a double; for \<open>a < b\<close> it is not claimed to lie in \<open>[a, b)\<close>.
\<close>

theorem grow_follows_draws:
  "((grow64 G X d h s = Some (Inr (t, s'))) = grow_draws G X d h t s s')
   \<and> (randint_ok G \<longrightarrow> 0 < ncols X \<longrightarrow>
        (\<exists>t' s''. grow64 G X d (Fin r) s = Some (Inr (t', s''))))
   \<and> (fl64 a = Fin a \<longrightarrow> split_value64 a a u = Fin a)"
proof (intro conjI impI)
  show "(grow64 G X d h s = Some (Inr (t, s'))) = grow_draws G X d h t s s'"
  proof
    assume "grow64 G X d h s = Some (Inr (t, s'))"
    then show "grow_draws G X d h t s s'" by (rule grow64_draws_sound)
  next
    assume "grow_draws G X d h t s s'"
    then show "grow64 G X d h s = Some (Inr (t, s'))" by (rule grow64_draws_complete)
  qed
next
  assume "randint_ok G" "0 < ncols X"
  then show "\<exists>t' s''. grow64 G X d (Fin r) s = Some (Inr (t', s''))"
    by (rule grow64_returns_tree)
next
  assume "fl64 a = Fin a"
  then show "split_value64 a a u = Fin a" by (rule split_value64_constant)
qed

theorem grow_follows_draws_witness:
  "grow64 counter_rng demo_X 0 (Fin 3) 0 = Some (Inr (demo_root64, 6))
   \<and> grow_draws counter_rng demo_X 0 (Fin 3) demo_root64 0 6
   \<and> randint_ok counter_rng \<and> 0 < ncols demo_X
   \<and> (\<exists>t' s''. grow64 counter_rng demo_X 0 (Fin 3) 0 = Some (Inr (t', s'')))
   \<and> fl64 5 = Fin 5
   \<and> split_value64 5 5 (1 / 2) = Fin 5"
proof -
  have n: "0 < ncols demo_X" by (simp add: demo_X_def)
  have f: "fl64 5 = Fin 5" using fl64_half[of 10] by simp
  from grow_follows_draws[of counter_rng demo_X 0 "Fin 3" 0 demo_root64 6 3 5 "1 / 2"]
    demo_root64_grow randint_ok_counter_rng n f
  show ?thesis by simp
qed

lemma fl64_not_NaN: "fl64 x \<noteq> NaN"
  by (simp add: fl64_def Let_def)

lemma f64_add_NaN: "(f64_add a w = NaN) = (w = NaN)"
  by (cases w) (simp_all add: fl64_not_NaN)

lemma f64_mul_NaN: "(f64_mul w u = NaN) = (w = NaN \<or> (u = 0 \<and> (w = PInf \<or> w = NInf)))"
  by (cases w) (simp_all add: fl64_not_NaN)

lemma split_value64_NaN:
  "(split_value64 a b u = NaN) = (u = 0 \<and> (fl64 (b - a) = PInf \<or> fl64 (b - a) = NInf))"
  by (simp add: split_value64_def f64_add_NaN f64_mul_NaN fl64_not_NaN)

lemma split_lengths64:
  assumes "v \<noteq> NaN"
  shows "length (rows (select_rows (\<lambda>row. f64_less (row ! att) v) X))
       + length (rows (select_rows (\<lambda>row. f64_ge (row ! att) v) X)) = length (rows X)"
proof -
  have "(\<lambda>row. f64_ge (row ! att) v) = (\<lambda>row. \<not> f64_less (row ! att) v)"
    using assms by (cases v) (auto simp: not_less)
  then show ?thesis by (simp add: select_rows_def sum_length_filter_compl)
qed

lemma grow64_conserves:
  assumes "grow64 G X d h s = Some (Inr (t, s'))" and "nan_free t"
  shows "conserves64 t X \<and> leaf_total64 t = length (rows X)"
  using assms
proof (induction t arbitrary: X d s s')
  case (ITreeLeaf64 k)
  from grow64_ITreeLeaf64D[OF ITreeLeaf64.prems(1)] show ?case by simp
next
  case (ITreeNode64 att v l r)
  from grow64_ITreeNode64D[OF ITreeNode64.prems(1)] obtain s2 s3 where
    gl: "grow64 G (select_rows (\<lambda>r. f64_less (r ! att) v) X) (d + 1) h s2 = Some (Inr (l, s3))" and
    gr: "grow64 G (select_rows (\<lambda>r. f64_ge (r ! att) v) X) (d + 1) h s3 = Some (Inr (r, s'))"
    by blast
  from ITreeNode64.prems(2) have v: "v \<noteq> NaN" and nl: "nan_free l" and nr: "nan_free r"
    by simp_all
  from ITreeNode64.IH(1)[OF gl nl] ITreeNode64.IH(2)[OF gr nr] split_lengths64[OF v, of att X]
  show ?case by (simp add: Let_def)
qed

lemma wide_difference: "fl64 (2 ^ 1023 - - (2 ^ 1023)) = PInf"
proof -
  have "round64 (of_int 1 * pow2 1024) = of_int 1 * pow2 1024"
    by (rule round64_exact) simp_all
  then have r: "round64 (2 ^ 1024) = 2 ^ 1024" by (simp add: pow2_def)
  have e: "(2::real) ^ 1023 - - (2 ^ 1023) = 2 ^ 1024" by simp
  show ?thesis unfolding e using r by (simp add: fl64_def Let_def)
qed

lemma wide_split_value: "split_value64 (- (2 ^ 1023)) (2 ^ 1023) 0 = NaN"
  unfolding split_value64_def wide_difference by simp

lemma wide_grow: "grow64 zero_rng wide_X 0 (Fin 1) 0 = Some (Inr (wide_root, 2))"
proof -
  have col: "column wide_X 0 = [- (2 ^ 1023), 2 ^ 1023]" by (simp add: column_def wide_X_def)
  have mn: "py_min (column wide_X 0) = - (2 ^ 1023)"
    unfolding col by (simp add: py_min_def)
  have mx: "py_max (column wide_X 0) = 2 ^ 1023"
    unfolding col by (simp add: py_max_def)
  have v: "NaN = split_value64 (py_min (column wide_X 0)) (py_max (column wide_X 0)) 0"
    unfolding mn mx wide_split_value ..
  have l: "grow64 zero_rng (select_rows (\<lambda>r. f64_less (r ! 0) NaN) wide_X) (0 + 1) (Fin 1) 2
             = Some (Inr (ITreeLeaf64 0, 2))"
    using grow64_leaf[of "0 + 1" "Fin 1" "select_rows (\<lambda>r. f64_less (r ! 0) NaN) wide_X" zero_rng 2]
    by (simp add: select_rows_def wide_X_def)
  have r: "grow64 zero_rng (select_rows (\<lambda>r. f64_ge (r ! 0) NaN) wide_X) (0 + 1) (Fin 1) 2
             = Some (Inr (ITreeLeaf64 0, 2))"
    using grow64_leaf[of "0 + 1" "Fin 1" "select_rows (\<lambda>r. f64_ge (r ! 0) NaN) wide_X" zero_rng 2]
    by (simp add: select_rows_def wide_X_def)
  have "grow64 zero_rng wide_X 0 (Fin 1) 0
          = Some (Inr (ITreeNode64 0 NaN (ITreeLeaf64 0) (ITreeLeaf64 0), 2))"
    by (rule grow64_node[where ?s1.0 = 1 and ?s2.0 = 2 and ?s3.0 = 2 and u = 0, OF _ _ _ _ _ v l r])
       (simp_all add: wide_X_def zero_rng_def)
  then show ?thesis by (simp add: wide_root_def)
qed

lemma zero_rng_ok: "randint_ok zero_rng \<and> sample_ok zero_rng"
  by (simp add: randint_ok_def sample_ok_def zero_rng_def)

lemma wide_not_conserved:
  "\<not> conserves64 wide_root wide_X \<and> leaf_total64 wide_root = 0 \<and> length (rows wide_X) = 2"
  by (simp add: wide_root_def wide_X_def select_rows_def Let_def)

lemma demo_constant_root64_grow:
  "grow64 counter_rng demo_X 0 (Fin 2) 1 = Some (Inr (demo_constant_root64, 5))"
proof -
  have f: "fl64 5 = Fin 5" using fl64_half[of 10] by simp
  have sv: "split_value64 5 5 (1 / 2) = Fin 5" by (rule split_value64_constant[OF f])
  show ?thesis
    apply (subst grow64.simps)
    apply (simp add: Let_def demo_X_def counter_rng_def column_def select_rows_def
        py_min_def py_max_def sv demo_constant_root64_def)
    apply (subst grow64.simps)
    apply (simp add: Let_def)
    apply (subst grow64.simps)
    apply (simp add: Let_def column_def select_rows_def py_min_def py_max_def sv)
    apply (subst grow64.simps)
    apply (simp add: Let_def)
    apply (subst grow64.simps)
    apply (simp add: Let_def)
    done
qed

lemma grow64_conserves_unless_nan:
  assumes "grow64 G X d h s = Some (Inr (t, s'))"
  shows "conserves_unless_nan t X"
  using assms
proof (induction t arbitrary: X d s s')
  case (ITreeLeaf64 k)
  from grow64_ITreeLeaf64D[OF ITreeLeaf64.prems(1)] show ?case by simp
next
  case (ITreeNode64 att v l r)
  from grow64_ITreeNode64D[OF ITreeNode64.prems(1)] obtain s2 s3 where
    gl: "grow64 G (select_rows (\<lambda>r. f64_less (r ! att) v) X) (d + 1) h s2 = Some (Inr (l, s3))" and
    gr: "grow64 G (select_rows (\<lambda>r. f64_ge (r ! att) v) X) (d + 1) h s3 = Some (Inr (r, s'))"
    by blast
  show ?case
  proof (cases "v = NaN")
    case True
    with ITreeNode64.IH(1)[OF gl] ITreeNode64.IH(2)[OF gr] show ?thesis
      by (simp add: Let_def select_rows_def)
  next
    case False
    with ITreeNode64.IH(1)[OF gl] ITreeNode64.IH(2)[OF gr] split_lengths64[OF False, of att X]
    show ?thesis by (simp add: Let_def)
  qed
qed

text \<open>
  Claim C7, as stated, does not hold of the construction in float64 arithmetic. On the
  two rows \<open>[[-2\<^sup>1\<^sup>0\<^sup>2\<^sup>3], [2\<^sup>1\<^sup>0\<^sup>2\<^sup>3]]\<close>, finite float64 values, \<open>b - a\<close> overflows to \<^verbatim>\<open>inf\<close>; when
  the generator's \<^verbatim>\<open>random_sample()\<close> is \<open>0.0\<close>, \<^verbatim>\<open>inf * 0.0\<close> is \<^verbatim>\<open>nan\<close> and so is the
  threshold. Both comparisons with \<^verbatim>\<open>nan\<close> are false of every row: the internal node built
  has two leaves of size 0, and the two rows that reached it are in neither part.
\<close>

theorem row_conservation_nan_threshold:
  "grow64 zero_rng wide_X 0 (Fin 1) 0 = Some (Inr (wide_root, 2))
   \<and> wide_root = ITreeNode64 0 NaN (ITreeLeaf64 0) (ITreeLeaf64 0)
   \<and> randint_ok zero_rng \<and> sample_ok zero_rng
   \<and> length (rows wide_X) = 2
   \<and> length (rows (select_rows (\<lambda>row. f64_less (row ! 0) NaN) wide_X))
       + length (rows (select_rows (\<lambda>row. f64_ge (row ! 0) NaN) wide_X)) = 0
   \<and> \<not> conserves64 wide_root wide_X
   \<and> leaf_total64 wide_root \<noteq> length (rows wide_X)"
proof -
  have "length (rows (select_rows (\<lambda>row. f64_less (row ! 0) NaN) wide_X))
       + length (rows (select_rows (\<lambda>row. f64_ge (row ! 0) NaN) wide_X)) = 0"
    by (simp add: select_rows_def)
  with wide_grow zero_rng_ok wide_not_conserved show ?thesis
    by (simp add: wide_root_def)
qed

section \<open>The resolved subsample size against the exact ceiling\<close>

lemma tenth_literal: "round64 (1 / 10) = 3602879701896397 / 36028797018963968"
proof -
  have "round64 (1 / 10)
      = of_int (rne ((1 / 10) / pow2 (- 4 - 52))) * pow2 (- 4 - 52)"
    by (rule round64_eval) (simp_all add: pow2_def)
  also have "rne ((1 / 10) / pow2 (- 4 - 52)) = 7205759403792793 + 1"
    by (rule rne_up) (simp_all add: pow2_def)
  finally show ?thesis by (simp add: pow2_def)
qed

lemma seven_literal: "round64 (7 / 100) = 1261007895663739 / 18014398509481984"
proof -
  have "round64 (7 / 100)
      = of_int (rne ((7 / 100) / pow2 (- 4 - 52))) * pow2 (- 4 - 52)"
    by (rule round64_eval) (simp_all add: pow2_def)
  also have "rne ((7 / 100) / pow2 (- 4 - 52)) = 5044031582654955 + 1"
    by (rule rne_up) (simp_all add: pow2_def)
  finally show ?thesis by (simp add: pow2_def)
qed

lemma seven_product:
  "round64 (1261007895663739 / 18014398509481984 * 100) = 7881299347898369 / 1125899906842624"
proof -
  have "round64 (1261007895663739 / 18014398509481984 * 100)
      = of_int (rne ((1261007895663739 / 18014398509481984 * 100) / pow2 (2 - 52))) * pow2 (2 - 52)"
    by (rule round64_eval) (simp_all add: pow2_def)
  also have "rne ((1261007895663739 / 18014398509481984 * 100) / pow2 (2 - 52)) = 7881299347898368 + 1"
    by (rule rne_up) (simp_all add: pow2_def)
  finally show ?thesis by (simp add: pow2_def)
qed

lemma seven_ceiling: "\<lceil>7881299347898369 / 1125899906842624 :: real\<rceil> = 8"
  by (simp add: ceiling_eq_iff)

lemma log2_8: "np_ceil (np_log2 8) = Fin 3"
proof -
  have "log 2 8 = log 2 ((2::real) ^ 3)" by simp
  also have "\<dots> = real 3" by (rule log_pow_cancel) auto
  finally have "log 2 8 = (3::real)" by simp
  then show ?thesis by (simp add: np_log2_def)
qed

lemma seven_fit_loop:
  "fit_loop 1 python2 counter_rng (Fin 3) (PyInt 8) hundred_X [] 0
     = Some (Inr ([\<lparr>tree_height_limit = Fin 3,
                    root = Some (ITreeNode 0 0 (ITreeLeaf 0)
                             (ITreeNode 0 0 (ITreeLeaf 0)
                               (ITreeNode 0 0 (ITreeLeaf 0) (ITreeLeaf 8))))\<rparr>], 7))"
  by code_simp

lemma seven_fit: "fit python2 counter_rng seven_forest_init hundred_X 0 = Some (seven_forest, Inr 7)"
proof -
  have "\<lceil>round64 (1261007895663739 / 18014398509481984 * 100)\<rceil> = 8"
    unfolding seven_product by (rule seven_ceiling)
  moreover have "real (length (rows hundred_X)) = 100" by (simp add: hundred_X_def)
  moreover have "num_val (subsample_size seven_forest_init) = 1261007895663739 / 18014398509481984"
    by (simp add: seven_forest_init_def IForest_init_def)
  ultimately have p: "fit_psi seven_forest_init hundred_X = PyInt 8"
    unfolding fit_psi_def Let_def by (simp only: ) simp
  have h: "fit_height_limit seven_forest_init (PyInt 8) = Fin 3"
    using log2_8 by (simp add: fit_height_limit_def seven_forest_init_def IForest_init_def)
  have n: "nat (num_trees seven_forest_init) = 1"
    by (simp add: seven_forest_init_def IForest_init_def)
  show ?thesis
    unfolding fit_def Let_def p h n seven_fit_loop
    by (simp add: seven_forest_init_def IForest_init_def seven_forest_def)
qed

text \<open>
  Claim C4, as stated, does not hold: the stored \<open>psi\<close> is not the ceiling of the product
  \<open>subsample_size \<cdot> m\<close>, whether \<open>subsample_size\<close> is read as the float64 that the code
  holds or as the decimal that was written. With \<^verbatim>\<open>subsample_size = 0.1\<close> and ten rows the
  float64 holds a value above \<open>1/10\<close>, the exact product is above 1 and its ceiling is 2;
  the float64 product rounds to \<open>1.0\<close> and \<open>fit\<close> stores 1. With \<^verbatim>\<open>subsample_size = 0.07\<close>
  and a hundred rows the decimal product is 7; the float64 product is \<open>7 + 2\<^sup>-\<^sup>5\<^sup>0\<close> and
  \<open>fit\<close> stores 8.
\<close>

theorem psi_exact_ceiling_counterexample:
  "fit python2 counter_rng tenth_forest_init ten_X 0 = Some (tenth_forest, Inr 1)
   \<and> subsample_size tenth_forest_init = PyFloat (round64 (1 / 10))
   \<and> num_val (subsample_size tenth_forest_init) \<le> 1
   \<and> length (rows ten_X) = 10
   \<and> psi tenth_forest = Some (PyInt 1)
   \<and> psi tenth_forest \<noteq>
       Some (PyInt \<lceil>num_val (subsample_size tenth_forest_init) * real (length (rows ten_X))\<rceil>)
   \<and> fit python2 counter_rng seven_forest_init hundred_X 0 = Some (seven_forest, Inr 7)
   \<and> subsample_size seven_forest_init = PyFloat (round64 (7 / 100))
   \<and> length (rows hundred_X) = 100
   \<and> psi seven_forest = Some (PyInt 8)
   \<and> psi seven_forest \<noteq> Some (PyInt \<lceil>7 / 100 * real (length (rows hundred_X))\<rceil>)"
proof -
  have a: "subsample_size tenth_forest_init = PyFloat (round64 (1 / 10))"
    unfolding tenth_literal by (simp add: tenth_forest_init_def IForest_init_def)
  have b: "subsample_size seven_forest_init = PyFloat (round64 (7 / 100))"
    unfolding seven_literal by (simp add: seven_forest_init_def IForest_init_def)
  have c: "psi tenth_forest \<noteq>
       Some (PyInt \<lceil>num_val (subsample_size tenth_forest_init) * real (length (rows ten_X))\<rceil>)"
    using tenth_exact_ceiling
    by (simp add: tenth_forest_def tenth_forest_init_def IForest_init_def ten_X_def)
  have d: "psi seven_forest \<noteq> Some (PyInt \<lceil>7 / 100 * real (length (rows hundred_X))\<rceil>)"
    by (simp add: seven_forest_def hundred_X_def)
  have e: "num_val (subsample_size tenth_forest_init) \<le> 1"
    by (simp add: tenth_forest_init_def IForest_init_def)
  have f: "length (rows ten_X) = 10" "length (rows hundred_X) = 100"
    by (simp_all add: ten_X_def hundred_X_def)
  have g: "psi tenth_forest = Some (PyInt 1)" "psi seven_forest = Some (PyInt 8)"
    by (simp_all add: tenth_forest_def seven_forest_def)
  from tenth_fit seven_fit a b c d e f g show ?thesis by blast
qed

lemma pow2_mono: "i \<le> j \<Longrightarrow> pow2 i \<le> pow2 j"
  by (simp add: pow2_powr)

lemma rne_abs_le:
  assumes "\<bar>x\<bar> < of_int n"
  shows "\<bar>rne x\<bar> \<le> n"
proof -
  have "\<lfloor>x\<rfloor> \<le> rne x" "rne x \<le> \<lfloor>x\<rfloor> + 1"
    by (simp_all add: rne_def Let_def)
  moreover have "\<lfloor>x\<rfloor> < n" using assms by (simp add: floor_less_iff)
  moreover have "- n \<le> \<lfloor>x\<rfloor>" using assms by (simp add: le_floor_iff)
  ultimately show ?thesis by linarith
qed

lemma round64_abs_le:
  assumes "\<bar>x\<bar> < pow2 (E + 1)" and "- 1022 \<le> E"
  shows "\<bar>round64 x\<bar> \<le> pow2 (E + 1)"
proof (cases "x = 0")
  case True
  then show ?thesis using pow2_pos[of "E + 1"] by (simp add: round64_def)
next
  case False
  define e where "e = max \<lfloor>log 2 \<bar>x\<bar>\<rfloor> (- 1022)"
  have px: "0 < \<bar>x\<bar>" using False by simp
  have "log 2 \<bar>x\<bar> < of_int (E + 1)"
    using assms(1) px by (simp add: pow2_powr log_less_iff)
  then have "\<lfloor>log 2 \<bar>x\<bar>\<rfloor> \<le> E" by linarith
  then have eE: "e \<le> E" using assms(2) by (simp add: e_def)
  have "log 2 \<bar>x\<bar> < of_int (\<lfloor>log 2 \<bar>x\<bar>\<rfloor> + 1)" by linarith
  then have "2 powr (log 2 \<bar>x\<bar>) < 2 powr (of_int (\<lfloor>log 2 \<bar>x\<bar>\<rfloor> + 1))"
    by (intro powr_less_mono) simp_all
  moreover have "2 powr (log 2 \<bar>x\<bar>) = \<bar>x\<bar>" using px by simp
  ultimately have "\<bar>x\<bar> < pow2 (\<lfloor>log 2 \<bar>x\<bar>\<rfloor> + 1)"
    by (simp only: pow2_powr)
  also have "\<dots> \<le> pow2 (e + 1)" by (rule pow2_mono) (simp add: e_def)
  finally have xe: "\<bar>x\<bar> < pow2 (e + 1)" .
  have p53: "pow2 53 = 2 ^ 53" by (simp add: pow2_def)
  have "e + 1 = 53 + (e - 52)" by simp
  then have "pow2 (e + 1) = pow2 53 * pow2 (e - 52)" by (simp only: pow2_add)
  then have split: "pow2 (e + 1) = 2 ^ 53 * pow2 (e - 52)" by (simp only: p53)
  have pe: "0 < pow2 (e - 52)" by (rule pow2_pos)
  have "\<bar>x / pow2 (e - 52)\<bar> = \<bar>x\<bar> / pow2 (e - 52)" using pe by simp
  also have "\<dots> < 2 ^ 53" using xe pe by (simp add: split pos_divide_less_eq)
  finally have "\<bar>x / pow2 (e - 52)\<bar> < of_int (2 ^ 53)" by simp
  then have "\<bar>rne (x / pow2 (e - 52))\<bar> \<le> 2 ^ 53" by (rule rne_abs_le)
  then have r: "\<bar>real_of_int (rne (x / pow2 (e - 52)))\<bar> \<le> 2 ^ 53"
    by (metis of_int_abs of_int_le_numeral_power_cancel_iff)
  have "round64 x = of_int (rne (x / pow2 (e - 52))) * pow2 (e - 52)"
    using False by (simp add: round64_def Let_def e_def)
  then have "\<bar>round64 x\<bar> = \<bar>real_of_int (rne (x / pow2 (e - 52)))\<bar> * pow2 (e - 52)"
    using pe by (simp add: abs_mult)
  also have "\<dots> \<le> 2 ^ 53 * pow2 (e - 52)" using r pe by (simp add: mult_right_mono)
  also have "\<dots> = pow2 (e + 1)" by (simp add: split)
  also have "\<dots> \<le> pow2 (E + 1)" by (rule pow2_mono) (use eE in simp)
  finally show ?thesis .
qed

lemma fl64_finite:
  assumes "\<bar>x\<bar> < 2 ^ 1023"
  shows "fl64 x = Fin (round64 x)"
proof -
  have p: "pow2 (1022 + 1) = 2 ^ 1023" by (simp add: pow2_def)
  have "\<bar>round64 x\<bar> \<le> pow2 (1022 + 1)"
    by (rule round64_abs_le) (use assms p in simp_all)
  then have "\<bar>round64 x\<bar> \<le> 2 ^ 1023" by (simp only: p)
  also have "(2::real) ^ 1023 < 2 ^ 1024" by simp
  finally show ?thesis by (simp add: fl64_def Let_def)
qed

section \<open>Row conservation in float64 arithmetic\<close>

lemma entries_below_select_rows:
  "entries_below B X \<Longrightarrow> entries_below B (select_rows p X)"
  by (simp add: entries_below_def select_rows_def)

lemma entries_below_column:
  assumes "entries_below B X" and "att < ncols X" and "x \<in> set (column X att)"
  shows "\<bar>x\<bar> < B"
  using assms by (auto simp: entries_below_def column_def)

lemma split_value64_not_NaN:
  assumes "\<bar>a\<bar> < 2 ^ 1022" and "\<bar>b\<bar> < 2 ^ 1022"
  shows "split_value64 a b u \<noteq> NaN"
proof -
  have "\<bar>b - a\<bar> \<le> \<bar>a\<bar> + \<bar>b\<bar>" by simp
  also have "\<dots> < 2 ^ 1022 + 2 ^ 1022" using assms by (rule add_strict_mono)
  also have "\<dots> = (2::real) ^ 1023" by simp
  finally have "fl64 (b - a) = Fin (round64 (b - a))" by (rule fl64_finite)
  then show ?thesis by (simp add: split_value64_NaN)
qed

lemma grow64_nan_free:
  assumes "grow64 G X d h s = Some (Inr (t, s'))" and "entries_below (2 ^ 1022) X"
  shows "nan_free t"
  using assms
proof (induction t arbitrary: X d s s')
  case (ITreeLeaf64 k)
  show ?case by simp
next
  case (ITreeNode64 att v l r)
  from grow64_ITreeNode64D[OF ITreeNode64.prems(1)] obtain u s2 s3 where
    m: "2 \<le> length (rows X)" and a: "att < ncols X" and
    v: "v = split_value64 (py_min (column X att)) (py_max (column X att)) u" and
    gl: "grow64 G (select_rows (\<lambda>r. f64_less (r ! att) v) X) (d + 1) h s2 = Some (Inr (l, s3))" and
    gr: "grow64 G (select_rows (\<lambda>r. f64_ge (r ! att) v) X) (d + 1) h s3 = Some (Inr (r, s'))"
    by blast
  have ne: "column X att \<noteq> []" using m by (auto simp: column_def)
  have "py_min (column X att) \<in> set (column X att)"
    unfolding py_min_Min[OF ne] using ne by (intro Min_in) simp_all
  then have lo: "\<bar>py_min (column X att)\<bar> < 2 ^ 1022"
    by (rule entries_below_column[OF ITreeNode64.prems(2) a])
  have "py_max (column X att) \<in> set (column X att)"
    unfolding py_max_Max[OF ne] using ne by (intro Max_in) simp_all
  then have hi: "\<bar>py_max (column X att)\<bar> < 2 ^ 1022"
    by (rule entries_below_column[OF ITreeNode64.prems(2) a])
  have "v \<noteq> NaN" unfolding v by (rule split_value64_not_NaN[OF lo hi])
  moreover have "nan_free l"
    by (rule ITreeNode64.IH(1)[OF gl entries_below_select_rows[OF ITreeNode64.prems(2)]])
  moreover have "nan_free r"
    by (rule ITreeNode64.IH(2)[OF gr entries_below_select_rows[OF ITreeNode64.prems(2)]])
  ultimately show ?case by simp
qed

text \<open>
  Claim C7, as amended: row conservation. In every tree that the construction returns,
  at every internal node whose threshold is not \<^verbatim>\<open>nan\<close> the rows sent left and the rows
  sent right are together as many as the rows that reached the node, and every leaf
  records the number of rows that reached it; in a tree without a \<^verbatim>\<open>nan\<close> threshold this
  holds at every internal node and the leaf sizes add up to the number of rows the tree
  was built from. The constant feature is no exception. The threshold of a node is
  \<^verbatim>\<open>nan\<close> exactly when \<open>b - a\<close> overflows float64 and the draw is \<open>0.0\<close>; such a node sends no
  row to either side. No threshold is \<^verbatim>\<open>nan\<close> when every entry of the array is below
  \<open>2\<^sup>1\<^sup>0\<^sup>2\<^sup>2\<close> in magnitude.
\<close>

theorem row_conservation_unless_nan:
  "(grow64 G X d h s = Some (Inr (t, s')) \<longrightarrow>
      conserves_unless_nan t X
      \<and> (nan_free t \<longrightarrow> conserves64 t X \<and> leaf_total64 t = length (rows X))
      \<and> (entries_below (2 ^ 1022) X \<longrightarrow> nan_free t))
   \<and> ((split_value64 a b u = NaN)
        = (u = 0 \<and> (fl64 (b - a) = PInf \<or> fl64 (b - a) = NInf)))"
proof (intro conjI impI)
  assume g: "grow64 G X d h s = Some (Inr (t, s'))"
  then show "conserves_unless_nan t X" by (rule grow64_conserves_unless_nan)
  {
    assume n: "nan_free t"
    from grow64_conserves[OF g n] show "conserves64 t X" ..
    from grow64_conserves[OF g n] show "leaf_total64 t = length (rows X)" ..
  }
  assume "entries_below (2 ^ 1022) X"
  with g show "nan_free t" by (rule grow64_nan_free)
next
  show "(split_value64 a b u = NaN)
        = (u = 0 \<and> (fl64 (b - a) = PInf \<or> fl64 (b - a) = NInf))"
    by (rule split_value64_NaN)
qed

theorem row_conservation_unless_nan_witness:
  "grow64 counter_rng demo_X 0 (Fin 2) 1 = Some (Inr (demo_constant_root64, 5))
   \<and> entries_below (2 ^ 1022) demo_X
   \<and> nan_free demo_constant_root64
   \<and> conserves_unless_nan demo_constant_root64 demo_X
   \<and> conserves64 demo_constant_root64 demo_X
   \<and> leaf_total64 demo_constant_root64 = 4 \<and> length (rows demo_X) = 4
   \<and> split_value64 (- (2 ^ 1023)) (2 ^ 1023) 0 = NaN
   \<and> fl64 (2 ^ 1023 - - (2 ^ 1023)) = PInf"
proof -
  have b: "entries_below (2 ^ 1022) demo_X"
    by (auto simp: entries_below_def demo_X_def numeral_2_eq_2 less_Suc_eq)
  have m: "length (rows demo_X) = 4" by (simp add: demo_X_def)
  from row_conservation_unless_nan
         [of counter_rng demo_X 0 "Fin 2" 1 demo_constant_root64 5 "- (2 ^ 1023)" "2 ^ 1023" 0]
    demo_constant_root64_grow b m wide_difference
  show ?thesis by simp
qed

end
